theory Spec2Isabelle
  imports Main "HOL-Library.AList"
begin

section \<open>The URL content cache (services/docs\_manager.py, class URLCache)\<close>

text \<open>
  Time is the wall clock of \<^verbatim>\<open>datetime.now()\<close>, counted in microseconds as an
  integer; a duration (\<^verbatim>\<open>timedelta\<close>) is an integer number of microseconds.
  Every call of \<^verbatim>\<open>datetime.now()\<close> in the source is a separate reading of the
  clock, so every operation takes one argument per reading it makes, in the order the
  source makes them. Nothing is assumed about how the readings relate.

  A Python \<^verbatim>\<open>str\<close> is a \<open>string\<close>, one \<open>char\<close> per character; a \<open>char\<close> holds a code
  point below 256, so the strings of the model are those made of such characters.
\<close>

text \<open>The one error a cache call can raise: \<^verbatim>\<open>popitem\<close> on an empty OrderedDict.\<close>

datatype cache_error = KeyError

text \<open>A cache entry: the dict \<^verbatim>\<open>{"content", "expires_at", "cached_at"}\<close>.\<close>

record entry =
  content :: string
  expires_at :: int
  cached_at :: int

text \<open>
  The cache object. \<open>ttl\<close> is the duration \<^verbatim>\<open>timedelta(hours=self.ttl_hours)\<close>;
  \<open>entries\<close> is the \<^verbatim>\<open>OrderedDict self._cache\<close>, first pair = oldest position
  (the one \<^verbatim>\<open>popitem(last=False)\<close> removes), last pair = the end that
  \<^verbatim>\<open>move_to_end\<close> moves to.
\<close>

record url_cache =
  ttl :: int
  max_size :: int
  entries :: "(string \<times> entry) list"

definition URLCache_init :: "int \<Rightarrow> int \<Rightarrow> url_cache" where
  "URLCache_init ttl_delta msize = \<lparr>ttl = ttl_delta, max_size = msize, entries = []\<rparr>"

text \<open>\<^verbatim>\<open>OrderedDict.move_to_end(url)\<close> for a key that is present.\<close>

definition move_to_end :: "string \<Rightarrow> (string \<times> entry) list \<Rightarrow> (string \<times> entry) list" where
  "move_to_end url kvs =
     (case map_of kvs url of
        None \<Rightarrow> kvs
      | Some e \<Rightarrow> AList.delete url kvs @ [(url, e)])"

text \<open>
  \<^verbatim>\<open>URLCache.get\<close>: the result and the cache after the call. \<open>now\<close> is the
  clock reading of line 122 (made only when the key is present).
\<close>

definition URLCache_get :: "int \<Rightarrow> string \<Rightarrow> url_cache \<Rightarrow> string option \<times> url_cache" where
  "URLCache_get now url c =
     (case map_of (entries c) url of
        None \<Rightarrow> (None, c)
      | Some e \<Rightarrow>
          if now > expires_at e
          then (None, c\<lparr>entries := AList.delete url (entries c)\<rparr>)
          else (Some (content e), c\<lparr>entries := move_to_end url (entries c)\<rparr>))"

text \<open>\<^verbatim>\<open>URLCache._clean_expired\<close>: deletes every key whose entry has
  \<^verbatim>\<open>expires_at < now\<close>.\<close>

definition URLCache_clean_expired :: "int \<Rightarrow> url_cache \<Rightarrow> url_cache" where
  "URLCache_clean_expired now c =
     c\<lparr>entries := filter (\<lambda>(key, e). \<not> expires_at e < now) (entries c)\<rparr>"

text \<open>
  \<^verbatim>\<open>URLCache.set\<close>. Three clock readings: \<open>t_clean\<close> in
  \<^verbatim>\<open>_clean_expired\<close>, \<open>t_exp\<close> for \<^verbatim>\<open>expires_at\<close> (line 146) and
  \<open>t_cached\<close> for \<^verbatim>\<open>cached_at\<close> (line 150). \<^verbatim>\<open>popitem(last=False)\<close> on an
  empty OrderedDict raises KeyError; the purge has already happened then, so the cache
  after the call is returned beside the error.  Assigning to a key that is present keeps
  its position, assigning to a new key appends it (\<open>AList.update\<close>).
\<close>

definition URLCache_set ::
  "int \<Rightarrow> int \<Rightarrow> int \<Rightarrow> string \<Rightarrow> string \<Rightarrow> url_cache \<Rightarrow> cache_error option \<times> url_cache" where
  "URLCache_set t_clean t_exp t_cached url cont c =
     (let c1 = URLCache_clean_expired t_clean c;
          e = \<lparr>content = cont, expires_at = t_exp + ttl c1, cached_at = t_cached\<rparr>
      in if int (length (entries c1)) \<ge> max_size c1
         then (case entries c1 of
                 [] \<Rightarrow> (Some KeyError, c1)
               | oldest # rest \<Rightarrow> (None, c1\<lparr>entries := AList.update url e rest\<rparr>))
         else (None, c1\<lparr>entries := AList.update url e (entries c1)\<rparr>))"

definition URLCache_clear :: "url_cache \<Rightarrow> url_cache" where
  "URLCache_clear c = c\<lparr>entries := []\<rparr>"

text \<open>The dict that \<^verbatim>\<open>get_stats\<close> returns.\<close>

record cache_stats =
  enabled :: bool
  total_entries :: nat
  valid_entries :: nat
  expired_entries :: nat
  stats_max_size :: int
  stats_ttl :: int

text \<open>
  \<^verbatim>\<open>URLCache.get_stats\<close>: it calls \<^verbatim>\<open>_clean_expired\<close> first (clock reading
  \<open>t_clean\<close>), then counts against a second reading \<open>now\<close>. Returns the statistics and
  the cache after the call.
\<close>

definition URLCache_get_stats :: "int \<Rightarrow> int \<Rightarrow> url_cache \<Rightarrow> cache_stats \<times> url_cache" where
  "URLCache_get_stats t_clean now c =
     (let c1 = URLCache_clean_expired t_clean c;
          valid = length (filter (\<lambda>(key, e). expires_at e > now) (entries c1))
      in (\<lparr>enabled = True,
           total_entries = length (entries c1),
           valid_entries = valid,
           expired_entries = length (entries c1) - valid,
           stats_max_size = max_size c1,
           stats_ttl = ttl c1\<rparr>, c1))"

text \<open>Example caches used to exercise the theorems below.\<close>

definition stale_cache :: url_cache where
  "stale_cache = \<lparr>ttl = 5, max_size = 3,
     entries = [(''a'', \<lparr>content = ''x'', expires_at = 5, cached_at = 0\<rparr>)]\<rparr>"

definition fresh_cache :: url_cache where
  "fresh_cache = \<lparr>ttl = 5, max_size = 3,
     entries = [(''a'', \<lparr>content = ''x'', expires_at = 5, cached_at = 0\<rparr>),
                (''b'', \<lparr>content = ''y'', expires_at = 7, cached_at = 2\<rparr>)]\<rparr>"

text \<open>
  Sequences of calls on one cache object. A call of \<^verbatim>\<open>set\<close> that raises leaves the
  cache as the call left it (the caller, \<^verbatim>\<open>fetch_url_content\<close>, catches the error).
\<close>

datatype cache_call =
    Get int string
  | Set int int int string string
  | GetStats int int
  | Clear

fun call :: "cache_call \<Rightarrow> url_cache \<Rightarrow> url_cache" where
  "call (Get now url) c = snd (URLCache_get now url c)"
| "call (Set t_clean t_exp t_cached url cont) c = snd (URLCache_set t_clean t_exp t_cached url cont c)"
| "call (GetStats t_clean now) c = snd (URLCache_get_stats t_clean now c)"
| "call Clear c = URLCache_clear c"

fun calls :: "cache_call list \<Rightarrow> url_cache \<Rightarrow> url_cache" where
  "calls [] c = c"
| "calls (x # xs) c = calls xs (call x c)"

text \<open>One insertion: the arguments of a \<^verbatim>\<open>set\<close> call and its three clock readings.\<close>

record insertion =
  ins_url :: string
  ins_content :: string
  ins_clean :: int
  ins_exp :: int
  ins_cached :: int

definition insert_call :: "insertion \<Rightarrow> cache_call" where
  "insert_call i = Set (ins_clean i) (ins_exp i) (ins_cached i) (ins_url i) (ins_content i)"

text \<open>The entry that \<^verbatim>\<open>set\<close> builds for an insertion into a cache with the given ttl.\<close>

definition ins_entry :: "int \<Rightarrow> insertion \<Rightarrow> string \<times> entry" where
  "ins_entry ttl_delta i =
     (ins_url i, \<lparr>content = ins_content i, expires_at = ins_exp i + ttl_delta, cached_at = ins_cached i\<rparr>)"

definition three_calls :: "cache_call list" where
  "three_calls = [Set 0 0 0 ''a'' ''x'', Get 1 ''a'', Set 2 2 2 ''b'' ''y'', Set 3 3 3 ''c'' ''z'',
                  GetStats 4 4, Set 5 5 5 ''d'' ''w'']"

definition three_insertions :: "insertion list" where
  "three_insertions =
     [\<lparr>ins_url = ''a'', ins_content = ''x'', ins_clean = 0, ins_exp = 0, ins_cached = 1\<rparr>,
      \<lparr>ins_url = ''b'', ins_content = ''y'', ins_clean = 2, ins_exp = 3, ins_cached = 3\<rparr>,
      \<lparr>ins_url = ''c'', ins_content = ''z'', ins_clean = 4, ins_exp = 4, ins_cached = 5\<rparr>]"

definition single_cache :: url_cache where
  "single_cache = \<lparr>ttl = 10, max_size = 1,
     entries = [(''A'', \<lparr>content = ''x'', expires_at = 10, cached_at = 0\<rparr>)]\<rparr>"

definition full_cache :: url_cache where
  "full_cache = \<lparr>ttl = 10, max_size = 3,
     entries = [(''a'', \<lparr>content = ''x'', expires_at = 10, cached_at = 0\<rparr>),
                (''b'', \<lparr>content = ''y'', expires_at = 11, cached_at = 1\<rparr>),
                (''c'', \<lparr>content = ''z'', expires_at = 12, cached_at = 2\<rparr>)]\<rparr>"

definition half_stale_cache :: url_cache where
  "half_stale_cache = \<lparr>ttl = 10, max_size = 3,
     entries = [(''a'', \<lparr>content = ''x'', expires_at = 10, cached_at = 0\<rparr>),
                (''b'', \<lparr>content = ''y'', expires_at = 11, cached_at = 1\<rparr>),
                (''c'', \<lparr>content = ''z'', expires_at = 200, cached_at = 190\<rparr>)]\<rparr>"

section \<open>The URL fetcher (DocsManager.fetch\_url\_content)\<close>

text \<open>
  What lines 501--525 yield for one URL: the HTTP request, \<^verbatim>\<open>raise_for_status\<close> and
  the markup stripping are calls into httpx and BeautifulSoup, so their outcome is an
  argument of the model. \<open>Page t\<close>: the response arrived with a success status and
  \<open>t\<close> is \<^verbatim>\<open>cleaned_text\<close> as line 517 or 525 leaves it. \<open>HTTPStatusError s\<close>:
  \<^verbatim>\<open>raise_for_status\<close> raised, \<open>s\<close> the status code as the f-string prints it.
  \<open>RequestError s\<close> and \<open>OtherError s\<close>: an \<^verbatim>\<open>httpx.RequestError\<close>, or any other
  exception, with \<open>s = str(e)\<close>.
\<close>

datatype http_outcome =
    is_Page: Page string
  | HTTPStatusError string
  | RequestError string
  | OtherError string

text \<open>\<^verbatim>\<open>str(e)\<close> for the error that \<^verbatim>\<open>cache.set\<close> can raise.\<close>

fun str_of_error :: "cache_error \<Rightarrow> string" where
  "str_of_error KeyError = [CHR 0x27] @ ''dictionary is empty'' @ [CHR 0x27]"

text \<open>The slice \<^verbatim>\<open>s[:n]\<close> for an integer \<open>n\<close>; a negative \<open>n\<close> counts from the end.\<close>

definition slice_to :: "int \<Rightarrow> string \<Rightarrow> string" where
  "slice_to n s = (if 0 \<le> n then take (nat n) s else take (length s - nat (- n)) s)"

definition truncation_marker :: string where
  "truncation_marker = ''... [truncado]''"

text \<open>
  The part of the manager that fetching touches: \<open>dm_cache\<close> is
  \<^verbatim>\<open>self.url_cache\<close> (\<open>None\<close> when the cache is disabled), and \<open>requests\<close> records
  every URL for which \<^verbatim>\<open>self.http_client.get\<close> was called, in order.
\<close>

record docs_manager =
  dm_cache :: "url_cache option"
  requests :: "string list"

text \<open>The cache lookup of lines 493--494.\<close>

definition cache_lookup :: "int \<Rightarrow> string \<Rightarrow> docs_manager \<Rightarrow> string option \<times> docs_manager" where
  "cache_lookup t_get url dm =
     (case dm_cache dm of
        None \<Rightarrow> (None, dm)
      | Some c \<Rightarrow> (fst (URLCache_get t_get url c), dm\<lparr>dm_cache := Some (snd (URLCache_get t_get url c))\<rparr>))"

text \<open>Whether line 495 finds a non-empty cached string, so that the call returns at line 497.\<close>

definition cache_hit :: "int \<Rightarrow> string \<Rightarrow> docs_manager \<Rightarrow> bool" where
  "cache_hit t_get url dm =
     (case fst (cache_lookup t_get url dm) of None \<Rightarrow> False | Some s \<Rightarrow> s \<noteq> [])"

text \<open>
  \<^verbatim>\<open>fetch_url_content\<close>: the text returned and the manager afterwards. \<open>t_get\<close> is
  the clock reading of \<^verbatim>\<open>cache.get\<close>, \<open>t_clean\<close>, \<open>t_exp\<close>, \<open>t_cached\<close> those of
  \<^verbatim>\<open>cache.set\<close>. An empty cached string is falsy in \<^verbatim>\<open>if cached_content:\<close>, so
  it is retrieved again. An error raised by \<^verbatim>\<open>cache.set\<close> is caught by the last
  \<^verbatim>\<open>except\<close> clause.
\<close>

definition fetch_url_content ::
  "http_outcome \<Rightarrow> int \<Rightarrow> int \<Rightarrow> int \<Rightarrow> int \<Rightarrow> string \<Rightarrow> int \<Rightarrow> docs_manager
     \<Rightarrow> string \<times> docs_manager" where
  "fetch_url_content outcome t_get t_clean t_exp t_cached url max_length dm =
     (let (cached, dm1) = cache_lookup t_get url dm;
          hit = (case cached of None \<Rightarrow> [] | Some s \<Rightarrow> s)
      in if hit \<noteq> []
         then (if int (length hit) > max_length then slice_to max_length hit else hit, dm1)
         else
           (let dm2 = dm1\<lparr>requests := requests dm1 @ [url]\<rparr>
            in case outcome of
                 Page cleaned \<Rightarrow>
                   (let cleaned_text =
                          (if int (length cleaned) > max_length
                           then slice_to max_length cleaned @ truncation_marker
                           else cleaned)
                    in case dm_cache dm2 of
                         None \<Rightarrow> (cleaned_text, dm2)
                       | Some c \<Rightarrow>
                           (case URLCache_set t_clean t_exp t_cached url cleaned_text c of
                              (None, c') \<Rightarrow> (cleaned_text, dm2\<lparr>dm_cache := Some c'\<rparr>)
                            | (Some err, c') \<Rightarrow>
                                (''Erro ao processar URL: '' @ str_of_error err,
                                 dm2\<lparr>dm_cache := Some c'\<rparr>)))
               | HTTPStatusError code \<Rightarrow> (''Erro ao buscar URL: '' @ code, dm2)
               | RequestError msg \<Rightarrow>
                   (''Erro de conex'' @ [CHR 0xE3] @ ''o ao buscar URL: '' @ msg, dm2)
               | OtherError msg \<Rightarrow> (''Erro ao processar URL: '' @ msg, dm2)))"

text \<open>Example: a page of 200 characters, fetched into an empty enabled cache.\<close>

definition page200 :: string where
  "page200 = replicate 200 CHR ''a''"

definition empty_manager :: docs_manager where
  "empty_manager = \<lparr>dm_cache = Some (URLCache_init 3600000000 1000), requests = []\<rparr>"

definition stale_manager :: docs_manager where
  "stale_manager = \<lparr>dm_cache = Some stale_cache, requests = []\<rparr>"

section \<open>Python values and strings\<close>

text \<open>
  A value as \<^verbatim>\<open>json.load\<close> produces it. A dict is an association list read with
  \<open>map_of\<close> and written with \<open>AList.update\<close> (an existing key keeps its place, a new
  key is appended, as in a Python dict). The code never looks at a number beyond its
  truthiness, so one constructor stands for ints and floats.
\<close>

datatype json =
    JNull
  | JBool bool
  | JNum int
  | is_JStr: JStr string
  | is_JArr: JArr "json list"
  | is_JObj: JObj "(string \<times> json) list"

text \<open>Truthiness, as \<^verbatim>\<open>not x\<close> and \<^verbatim>\<open>if x:\<close> test it.\<close>

fun truthy :: "json \<Rightarrow> bool" where
  "truthy JNull = False"
| "truthy (JBool b) = b"
| "truthy (JNum n) = (n \<noteq> 0)"
| "truthy (JStr s) = (s \<noteq> [])"
| "truthy (JArr xs) = (xs \<noteq> [])"
| "truthy (JObj kvs) = (kvs \<noteq> [])"

text \<open>\<^verbatim>\<open>d.get(key, default)\<close>.\<close>

definition dict_get :: "(string \<times> json) list \<Rightarrow> string \<Rightarrow> json \<Rightarrow> json" where
  "dict_get d key dflt = (case map_of d key of None \<Rightarrow> dflt | Some v \<Rightarrow> v)"

text \<open>
  Characters. A \<open>char\<close> is a code point below 256; the classes below are Python's on
  that range: \<^verbatim>\<open>str.isspace\<close> and the regular expression class \<^verbatim>\<open>\s\<close> (the same
  set there), \<^verbatim>\<open>\d\<close> (only the ASCII digits are decimal digits below 256), and
  \<^verbatim>\<open>str.lower\<close>.
\<close>

definition code_point :: "char \<Rightarrow> nat" where
  "code_point c = of_char c"

definition is_ascii_letter :: "char \<Rightarrow> bool" where
  "is_ascii_letter c =
     ((65 \<le> code_point c \<and> code_point c \<le> 90) \<or> (97 \<le> code_point c \<and> code_point c \<le> 122))"

definition is_digit :: "char \<Rightarrow> bool" where
  "is_digit c = (48 \<le> code_point c \<and> code_point c \<le> 57)"

definition is_space :: "char \<Rightarrow> bool" where
  "is_space c =
     ((9 \<le> code_point c \<and> code_point c \<le> 13) \<or> (28 \<le> code_point c \<and> code_point c \<le> 32)
      \<or> code_point c = 133 \<or> code_point c = 160)"

definition lower_char :: "char \<Rightarrow> char" where
  "lower_char c =
     (if (65 \<le> code_point c \<and> code_point c \<le> 90)
         \<or> (192 \<le> code_point c \<and> code_point c \<le> 222 \<and> code_point c \<noteq> 215)
      then char_of (code_point c + 32) else c)"

definition py_lower :: "string \<Rightarrow> string" where
  "py_lower s = map lower_char s"

definition py_strip :: "string \<Rightarrow> string" where
  "py_strip s = rev (dropWhile is_space (rev (dropWhile is_space s)))"

text \<open>\<^verbatim>\<open>sub in s\<close> for two strings: \<open>sub\<close> occurs in \<open>s\<close> as a contiguous block.\<close>

fun starts_with :: "string \<Rightarrow> string \<Rightarrow> bool" where
  "starts_with [] s = True"
| "starts_with (c # cs) [] = False"
| "starts_with (c # cs) (x # xs) = (c = x \<and> starts_with cs xs)"

fun py_in :: "string \<Rightarrow> string \<Rightarrow> bool" where
  "py_in sub [] = (sub = [])"
| "py_in sub (x # xs) = (starts_with sub (x # xs) \<or> py_in sub xs)"

section \<open>The URL validator (services/url\_loader.py, validate\_url)\<close>

text \<open>
  Regular expressions as far as \<^verbatim>\<open>url_pattern\<close> needs them. \<open>Atom p\<close> matches one
  character satisfying \<open>p\<close>; \<open>Rep lo hi r\<close> is \<^verbatim>\<open>r{lo,hi}\<close>; \<open>Plus r\<close> is
  \<^verbatim>\<open>r+\<close>. \<open>rx_match r s\<close> lists the rest of \<open>s\<close> after every way of matching a prefix
  of \<open>s\<close> against \<open>r\<close>, in the order a backtracking matcher tries them (greedy first);
  \<^verbatim>\<open>re\<close> finds a match exactly when one of these ways leads to one. An
  \<^verbatim>\<open>r+\<close> whose body consumes a character at every round makes at most
  \<open>length s\<close> rounds.
\<close>

datatype rx =
    Eps
  | Atom "char \<Rightarrow> bool"
  | Seq rx rx
  | Alt rx rx
  | Opt rx
  | Rep nat nat rx
  | Plus rx

fun rx_rep :: "(string \<Rightarrow> string list) \<Rightarrow> nat \<Rightarrow> nat \<Rightarrow> string \<Rightarrow> string list" where
  "rx_rep f lo 0 s = (if lo = 0 then [s] else [])"
| "rx_rep f lo (Suc hi) s =
     concat (map (rx_rep f (lo - 1) hi) (f s)) @ (if lo = 0 then [s] else [])"

fun rx_match :: "rx \<Rightarrow> string \<Rightarrow> string list" where
  "rx_match Eps s = [s]"
| "rx_match (Atom p) s = (case s of [] \<Rightarrow> [] | c # cs \<Rightarrow> if p c then [cs] else [])"
| "rx_match (Seq r1 r2) s = concat (map (rx_match r2) (rx_match r1 s))"
| "rx_match (Alt r1 r2) s = rx_match r1 s @ rx_match r2 s"
| "rx_match (Opt r) s = rx_match r s @ [s]"
| "rx_match (Rep lo hi r) s = rx_rep (rx_match r) lo hi s"
| "rx_match (Plus r) s = rx_rep (rx_match r) 1 (length s) s"

text \<open>
  The pattern is anchored by \<^verbatim>\<open>^\<close> (and \<^verbatim>\<open>match\<close>) at the start and by \<^verbatim>\<open>$\<close> at
  the end. \<^verbatim>\<open>$\<close> also matches before a final newline, but the string matched is
  \<^verbatim>\<open>url.strip()\<close>, which never ends in one.
\<close>

definition rx_full_match :: "rx \<Rightarrow> string \<Rightarrow> bool" where
  "rx_full_match r s = ([] \<in> set (rx_match r s))"

text \<open>A literal character under \<^verbatim>\<open>re.IGNORECASE\<close>, and a literal word.\<close>

definition rx_ch :: "char \<Rightarrow> rx" where
  "rx_ch c = Atom (\<lambda>x. lower_char x = lower_char c)"

fun rx_lit :: "string \<Rightarrow> rx" where
  "rx_lit [] = Eps"
| "rx_lit (c # cs) = Seq (rx_ch c) (rx_lit cs)"

text \<open>The classes \<^verbatim>\<open>[A-Z0-9]\<close>, \<^verbatim>\<open>[A-Z0-9-]\<close>, \<^verbatim>\<open>[A-Z]\<close> (under IGNORECASE),
  \<^verbatim>\<open>\d\<close>, \<^verbatim>\<open>\S\<close> and \<^verbatim>\<open>[/?]\<close>.\<close>

definition rx_alnum :: rx where
  "rx_alnum = Atom (\<lambda>c. is_ascii_letter c \<or> is_digit c)"

definition rx_alnum_hyphen :: rx where
  "rx_alnum_hyphen = Atom (\<lambda>c. is_ascii_letter c \<or> is_digit c \<or> c = CHR ''-'')"

definition rx_alpha :: rx where
  "rx_alpha = Atom is_ascii_letter"

definition rx_digit :: rx where
  "rx_digit = Atom is_digit"

definition rx_non_space :: rx where
  "rx_non_space = Atom (\<lambda>c. \<not> is_space c)"

definition rx_slash_or_question :: rx where
  "rx_slash_or_question = Atom (\<lambda>c. c = CHR ''/'' \<or> c = CHR ''?'')"

text \<open>\<^verbatim>\<open>(?:[A-Z0-9](?:[A-Z0-9-]{0,61}[A-Z0-9])?\.)+[A-Z]{2,6}\.?\<close>\<close>

definition rx_domain :: rx where
  "rx_domain =
     Seq (Plus (Seq rx_alnum (Seq (Opt (Seq (Rep 0 61 rx_alnum_hyphen) rx_alnum)) (rx_ch CHR ''.''))))
         (Seq (Rep 2 6 rx_alpha) (Opt (rx_ch CHR ''.'')))"

text \<open>\<^verbatim>\<open>\d{1,3}\.\d{1,3}\.\d{1,3}\.\d{1,3}\<close>\<close>

definition rx_ipv4 :: rx where
  "rx_ipv4 =
     Seq (Rep 1 3 rx_digit) (Seq (rx_ch CHR ''.'')
    (Seq (Rep 1 3 rx_digit) (Seq (rx_ch CHR ''.'')
    (Seq (Rep 1 3 rx_digit) (Seq (rx_ch CHR ''.'')
         (Rep 1 3 rx_digit))))))"

text \<open>The whole of \<^verbatim>\<open>url_pattern\<close> (lines 29--37), piece by piece.\<close>

definition url_pattern :: rx where
  "url_pattern =
     Seq (rx_lit ''http'') (Seq (Opt (rx_ch CHR ''s'')) (Seq (rx_lit ''://'')
    (Seq (Alt rx_domain (Alt (rx_lit ''localhost'') rx_ipv4))
    (Seq (Opt (Seq (rx_ch CHR '':'') (Plus rx_digit)))
         (Alt (Opt (rx_ch CHR ''/''))
              (Seq rx_slash_or_question (Plus rx_non_space)))))))"

text \<open>
  \<^verbatim>\<open>validate_url\<close>. The argument is any value (callers pass what a descriptor file
  holds). The match itself cannot raise on a string, so the \<^verbatim>\<open>try\<close> has no
  \<^verbatim>\<open>except\<close> branch to model.
\<close>

definition validate_url :: "json \<Rightarrow> bool" where
  "validate_url url =
     (if \<not> truthy url \<or> \<not> is_JStr url then False
      else (case url of JStr s \<Rightarrow> rx_full_match url_pattern (py_strip s) | _ \<Rightarrow> False))"

section \<open>The file system seen by the loader and the document repository\<close>

text \<open>
  A path is the string pathlib would print. \<open>p // q\<close> is written \<open>pjoin p q\<close>: an
  absolute right operand replaces the left one. The file system is a record of the
  answers the operating system and the parsing libraries give:
  \<^item> \<open>fs_exists\<close>, \<open>fs_is_dir\<close>: \<^verbatim>\<open>Path.exists()\<close>, \<^verbatim>\<open>Path.is_dir()\<close>;
  \<^item> \<open>fs_stat_error\<close>: the status of the path cannot be read, so that
    \<^verbatim>\<open>Path.exists()\<close> and \<^verbatim>\<open>Path.is_dir()\<close> raise OSError instead of answering (a
    name too long, a directory without search permission). It is consulted where these
    calls stand outside a \<^verbatim>\<open>try\<close> (lines 66, 647, 665) and in \<^verbatim>\<open>get_tutorials\<close>.
    In \<^verbatim>\<open>get_document\<close> they stand inside the \<^verbatim>\<open>try\<close> of lines 330--409 and are
    applied to names taken from the directory listing; \<^verbatim>\<open>get_document\<close> is modelled
    on the answers \<open>fs_exists\<close> and \<open>fs_is_dir\<close> alone;
  \<^item> \<open>fs_listdir\<close>: the names \<^verbatim>\<open>Path.iterdir()\<close> yields, in the order the operating
    system lists them, \<open>None\<close> when it raises;
  \<^item> \<open>fs_glob_md\<close>: the names \<^verbatim>\<open>Path.glob("*.md")\<close> yields, in its order;
  \<^item> \<open>fs_read_text\<close>: \<^verbatim>\<open>open(path, 'r', encoding='utf-8').read()\<close>, \<open>None\<close> when
    it raises;
  \<^item> \<open>fs_load_json\<close>: \<^verbatim>\<open>json.load\<close> of the opened file, \<open>None\<close> when opening or
    parsing raises;
  \<^item> \<open>fs_pdf_text\<close>: what lines 379--405 yield for a PDF file (text extraction by
    PyPDF2 or pdfplumber), \<open>None\<close> when no library is there or the extraction fails.
\<close>

definition pjoin :: "string \<Rightarrow> string \<Rightarrow> string" where
  "pjoin p q = (if starts_with ''/'' q then q else p @ ''/'' @ q)"

record file_system =
  fs_exists :: "string \<Rightarrow> bool"
  fs_is_dir :: "string \<Rightarrow> bool"
  fs_stat_error :: "string \<Rightarrow> bool"
  fs_listdir :: "string \<Rightarrow> string list option"
  fs_glob_md :: "string \<Rightarrow> string list"
  fs_read_text :: "string \<Rightarrow> string option"
  fs_load_json :: "string \<Rightarrow> json option"
  fs_pdf_text :: "string \<Rightarrow> string option"

text \<open>The errors that leave the loader and the search uncaught.\<close>

datatype py_error = AttributeError | TypeError | OSError

section \<open>The tutorial index loader (services/url\_loader.py, load\_urls\_from\_json)\<close>

definition default_structure :: "(string \<times> json) list" where
  "default_structure = [(''tutoriais'', JArr []), (''urls'', JArr [])]"

text \<open>The placeholder title of line 107; its sixth character is U+00ED (i with acute).\<close>

definition sem_titulo :: string where
  "sem_titulo = ''Sem t'' @ [CHR 0xED] @ ''tulo''"

text \<open>Lines 113--114 and 139--140: a \<^verbatim>\<open>topicos\<close> value that is not a list becomes \<^verbatim>\<open>[]\<close>.\<close>

definition list_or_empty :: "json \<Rightarrow> json" where
  "list_or_empty v = (if \<not> is_JArr v then JArr [] else v)"

text \<open>The dicts \<^verbatim>\<open>tutorial_valid\<close> (lines 106--114) and \<^verbatim>\<open>url_valid\<close> (lines 132--140).\<close>

definition tutorial_valid :: "(string \<times> json) list \<Rightarrow> json" where
  "tutorial_valid tutorial =
     JObj [(''titulo'', dict_get tutorial ''titulo'' (JStr sem_titulo)),
           (''url'', dict_get tutorial ''url'' (JStr '''')),
           (''categoria'', dict_get tutorial ''categoria'' (JStr '''')),
           (''topicos'', list_or_empty (dict_get tutorial ''topicos'' (JArr [])))]"

definition url_valid :: "(string \<times> json) list \<Rightarrow> json" where
  "url_valid url_item =
     JObj [(''url'', dict_get url_item ''url'' (JStr '''')),
           (''descricao'', dict_get url_item ''descricao'' (JStr '''')),
           (''categoria'', dict_get url_item ''categoria'' (JStr '''')),
           (''topicos'', list_or_empty (dict_get url_item ''topicos'' (JArr [])))]"

text \<open>
  The two loops (lines 95--116 and 121--142): \<open>valid\<close> is the list built so far, an entry
  that is not a dict, has no \<^verbatim>\<open>"url"\<close> key or fails \<^verbatim>\<open>validate_url\<close> is skipped
  (\<^verbatim>\<open>continue\<close>).
\<close>

fun validate_entries :: "((string \<times> json) list \<Rightarrow> json) \<Rightarrow> json list \<Rightarrow> json list \<Rightarrow> json list" where
  "validate_entries mk [] valid = valid"
| "validate_entries mk (JObj item # rest) valid =
     (if map_of item ''url'' = None \<or> \<not> validate_url (dict_get item ''url'' (JStr ''''))
      then validate_entries mk rest valid
      else validate_entries mk rest (valid @ [mk item]))"
| "validate_entries mk (other # rest) valid = validate_entries mk rest valid"

text \<open>The elements of a value that is a list (the loops run over lists only).\<close>

fun elements :: "json \<Rightarrow> json list" where
  "elements (JArr xs) = xs"
| "elements other = []"

text \<open>Lines 81--84 (a missing key is added with an empty list) and lines 87--92 (a value
  that is not a list is replaced by an empty list).\<close>

definition ensure_key :: "string \<Rightarrow> (string \<times> json) list \<Rightarrow> (string \<times> json) list" where
  "ensure_key key d = (if map_of d key = None then AList.update key (JArr []) d else d)"

definition ensure_is_list :: "string \<Rightarrow> (string \<times> json) list \<Rightarrow> (string \<times> json) list" where
  "ensure_is_list key d =
     (if \<not> is_JArr (dict_get d key JNull) then AList.update key (JArr []) d else d)"

text \<open>
  \<^verbatim>\<open>load_urls_from_json\<close>. The test \<^verbatim>\<open>json_path.exists()\<close> of line 66 stands
  before the \<^verbatim>\<open>try\<close>, so an OSError it raises leaves the function; every error after
  it is caught and gives the default structure. The dict returned for a well-formed
  file is the parsed dict itself with its two lists replaced, so any further top-level
  key stays in it.
\<close>

definition load_urls_from_json :: "file_system \<Rightarrow> string \<Rightarrow> py_error + (string \<times> json) list" where
  "load_urls_from_json fs json_path =
     (if fs_stat_error fs json_path then Inl OSError
      else if \<not> fs_exists fs json_path then Inr default_structure
      else case fs_load_json fs json_path of
             None \<Rightarrow> Inr default_structure
           | Some (JObj d) \<Rightarrow>
               (let d1 = ensure_key ''tutoriais'' d;
                    d2 = ensure_key ''urls'' d1;
                    d3 = ensure_is_list ''tutoriais'' d2;
                    d4 = ensure_is_list ''urls'' d3;
                    valid_tutoriais =
                      validate_entries tutorial_valid (elements (dict_get d4 ''tutoriais'' JNull)) [];
                    d5 = AList.update ''tutoriais'' (JArr valid_tutoriais) d4;
                    valid_urls = validate_entries url_valid (elements (dict_get d5 ''urls'' JNull)) [];
                    d6 = AList.update ''urls'' (JArr valid_urls) d5
                in Inr d6)
           | Some other \<Rightarrow> Inr default_structure)"

text \<open>
  The spec's words for the filter: an entry survives when it is a record whose
  \<^verbatim>\<open>url\<close> passes the URL validator.
\<close>

fun entry_survives :: "json \<Rightarrow> bool" where
  "entry_survives (JObj item) = (case map_of item ''url'' of None \<Rightarrow> False | Some u \<Rightarrow> validate_url u)"
| "entry_survives other = False"

fun dict_of :: "json \<Rightarrow> (string \<times> json) list" where
  "dict_of (JObj item) = item"
| "dict_of other = []"

text \<open>The list a descriptor holds under a key: empty when the key is missing or its value
  is not a list.\<close>

definition listed :: "(string \<times> json) list \<Rightarrow> string \<Rightarrow> json list" where
  "listed d key = elements (dict_get d key (JArr []))"

text \<open>An example descriptor file: a string, an entry with a script URL, an entry without
  topics, and a further top-level key.\<close>

definition example_descriptor :: json where
  "example_descriptor =
     JObj [(''versao'', JNum 2),
           (''tutoriais'',
              JArr [JStr ''junk'',
                    JObj [(''titulo'', JStr ''Bad''), (''url'', JStr ''javascript:alert(1)'')],
                    JObj [(''url'', JStr ''https://example.com''), (''categoria'', JStr ''maquinario'')]])]"

definition example_fs :: file_system where
  "example_fs =
     \<lparr>fs_exists = (\<lambda>p. p = ''docs/tutoriais/maquinario/urls.json''),
      fs_is_dir = (\<lambda>p. False),
      fs_stat_error = (\<lambda>p. False),
      fs_listdir = (\<lambda>p. None),
      fs_glob_md = (\<lambda>p. []),
      fs_read_text = (\<lambda>p. None),
      fs_load_json = (\<lambda>p. if p = ''docs/tutoriais/maquinario/urls.json''
                            then Some example_descriptor else None),
      fs_pdf_text = (\<lambda>p. None)\<rparr>"

text \<open>The parsed dict after lines 81--92, before the two loops.\<close>

definition ensured :: "(string \<times> json) list \<Rightarrow> (string \<times> json) list" where
  "ensured d =
     ensure_is_list ''urls'' (ensure_is_list ''tutoriais'' (ensure_key ''urls'' (ensure_key ''tutoriais'' d)))"

text \<open>
  A descriptor path with a directory name of 300 characters, in a file system that holds
  the directory \<open>docs/tutoriais\<close> and nothing in it: no file lies at that path, and
  \<^verbatim>\<open>Path.exists()\<close> raises OSError there (file name too long) instead of answering.
\<close>

definition overlong_path :: string where
  "overlong_path = ''docs/tutoriais/'' @ replicate 300 CHR ''a'' @ ''/urls.json''"

definition overlong_fs :: file_system where
  "overlong_fs =
     \<lparr>fs_exists = (\<lambda>p. p = ''docs'' \<or> p = ''docs/tutoriais''),
      fs_is_dir = (\<lambda>p. p = ''docs'' \<or> p = ''docs/tutoriais''),
      fs_stat_error = (\<lambda>p. p = overlong_path),
      fs_listdir = (\<lambda>p. if p = ''docs'' then Some [''tutoriais'']
                         else if p = ''docs/tutoriais'' then Some [] else None),
      fs_glob_md = (\<lambda>p. []),
      fs_read_text = (\<lambda>p. None),
      fs_load_json = (\<lambda>p. None),
      fs_pdf_text = (\<lambda>p. None)\<rparr>"

section \<open>The document repository (DocsManager.get\_document)\<close>

text \<open>The manager's directories and the file system they live in.\<close>

record docs_repo =
  repo_fs :: file_system
  md_path :: string
  pdf_path :: string
  tutoriais_path :: string

text \<open>The five categories, in the order the source lists them (lines 250, 268, 435, 459).\<close>

definition categories :: "string list" where
  "categories = [''beneficiarios'', ''conselho_rural'', ''convenio_cooperativas'', ''fundo_rural'',
                 ''maquinario'']"

text \<open>\<^verbatim>\<open>if category:\<close> for an optional string: \<^verbatim>\<open>None\<close> and \<^verbatim>\<open>""\<close> are falsy.\<close>

fun category_given :: "string option \<Rightarrow> bool" where
  "category_given None = False"
| "category_given (Some c) = (c \<noteq> [])"

text \<open>
  The loop of lines 337--342 (and 353--358): over the entries of the root directory as
  \<^verbatim>\<open>iterdir\<close> yields them; the first entry that is a directory and holds the file
  ends the loop (\<^verbatim>\<open>break\<close>).
\<close>

fun first_holding :: "file_system \<Rightarrow> string \<Rightarrow> string \<Rightarrow> string list \<Rightarrow> string option" where
  "first_holding fs root file_name [] = None"
| "first_holding fs root file_name (name # names) =
     (if fs_is_dir fs (pjoin root name)
      then (if fs_exists fs (pjoin (pjoin root name) file_name)
            then Some (pjoin (pjoin root name) file_name)
            else first_holding fs root file_name names)
      else first_holding fs root file_name names)"

text \<open>Lines 332--346: the path to read, \<open>None\<close> when the function returns \<^verbatim>\<open>None\<close>
  there (nothing found, or \<^verbatim>\<open>iterdir\<close> raised and the outer \<^verbatim>\<open>except\<close> caught it).\<close>

definition locate :: "file_system \<Rightarrow> string \<Rightarrow> string \<Rightarrow> string option \<Rightarrow> string option" where
  "locate fs root file_name category =
     (if category_given category
      then Some (pjoin (pjoin root (case category of Some c \<Rightarrow> c | None \<Rightarrow> [])) file_name)
      else (case fs_listdir fs root of
              None \<Rightarrow> None
            | Some names \<Rightarrow> first_holding fs root file_name names))"

text \<open>
  \<^verbatim>\<open>get_document\<close>: the content, or \<open>None\<close> for \<^verbatim>\<open>None\<close>. Every exception is
  caught and turned into \<^verbatim>\<open>None\<close> (lines 407--409).
\<close>

definition get_document :: "docs_repo \<Rightarrow> string \<Rightarrow> string \<Rightarrow> string option \<Rightarrow> string option" where
  "get_document r doc_name doc_type category =
     (if doc_type = ''md''
      then (case locate (repo_fs r) (md_path r) (doc_name @ ''.md'') category of
              None \<Rightarrow> None
            | Some doc_path \<Rightarrow>
                if \<not> fs_exists (repo_fs r) doc_path then None
                else fs_read_text (repo_fs r) doc_path)
      else if doc_type = ''pdf''
      then (case locate (repo_fs r) (pdf_path r) (doc_name @ ''.pdf'') category of
              None \<Rightarrow> None
            | Some doc_path \<Rightarrow>
                if \<not> fs_exists (repo_fs r) doc_path then None
                else fs_pdf_text (repo_fs r) doc_path)
      else None)"




section \<open>The documentation search (DocsManager.search\_documentation)\<close>

text \<open>
  The static knowledge base \<^verbatim>\<open>DOCUMENTATION_MAP\<close>, in the order of the dict: for each
  category its \<^verbatim>\<open>topics\<close> and its \<^verbatim>\<open>common_issues\<close> (the \<^verbatim>\<open>documentation\<close> labels
  are not read by the search). Characters outside ASCII are given by code point.
\<close>

definition DOCUMENTATION_MAP :: "(string \<times> string list \<times> string list) list" where
  "DOCUMENTATION_MAP =
     [(''beneficiarios'',
       [''cadastro'',
        ''doa'' @ [CHR 0xE7] @ [CHR 0xF5] @ ''es'',
        ''empr'' @ [CHR 0xE9] @ ''stimos'',
        ''implementos agr'' @ [CHR 0xED] @ ''colas'',
        ''solicitantes''],
       [''cadastro incompleto'',
        ''valida'' @ [CHR 0xE7] @ [CHR 0xE3] @ ''o de documentos'',
        ''aprova'' @ [CHR 0xE7] @ [CHR 0xE3] @ ''o de solicita'' @ [CHR 0xE7] @ [CHR 0xF5] @ ''es'']),
      (''conselho_rural'',
       [''gest'' @ [CHR 0xE3] @ ''o'',
        ''reuni'' @ [CHR 0xF5] @ ''es'',
        ''delibera'' @ [CHR 0xE7] @ [CHR 0xF5] @ ''es'',
        ''membros'',
        ''atas''],
       [''qu'' @ [CHR 0xF3] @ ''rum insuficiente'',
        ''valida'' @ [CHR 0xE7] @ [CHR 0xE3] @ ''o de delibera'' @ [CHR 0xE7] @ [CHR 0xF5] @ ''es'',
        ''registro de atas'']),
      (''convenio_cooperativas'',
       [''conv'' @ [CHR 0xEA] @ ''nios'',
        ''associa'' @ [CHR 0xE7] @ [CHR 0xF5] @ ''es'',
        ''cooperativas'',
        ''parcerias'',
        ''contratos''],
       [''valida'' @ [CHR 0xE7] @ [CHR 0xE3] @ ''o de documentos'',
        ''renova'' @ [CHR 0xE7] @ [CHR 0xE3] @ ''o de conv'' @ [CHR 0xEA] @ ''nios'',
        ''presta'' @ [CHR 0xE7] @ [CHR 0xE3] @ ''o de contas'']),
      (''fundo_rural'',
       [''cr'' @ [CHR 0xE9] @ ''dito rural'',
        ''financiamento'',
        ''recursos'',
        ''gest'' @ [CHR 0xE3] @ ''o financeira'',
        ''aplica'' @ [CHR 0xE7] @ [CHR 0xE3] @ ''o''],
       [''aprova'' @ [CHR 0xE7] @ [CHR 0xE3] @ ''o de cr'' @ [CHR 0xE9] @ ''dito'',
        ''documenta'' @ [CHR 0xE7] @ [CHR 0xE3] @ ''o necess'' @ [CHR 0xE1] @ ''ria'',
        ''prazos de pagamento'']),
      (''maquinario'',
       [''controle'',
        ''manuten'' @ [CHR 0xE7] @ [CHR 0xE3] @ ''o'',
        ''estradas rurais'',
        ''servi'' @ [CHR 0xE7] @ ''os'',
        ''equipamentos''],
       [''manuten'' @ [CHR 0xE7] @ [CHR 0xE3] @ ''o preventiva'',
        ''disponibilidade de equipamentos'',
        ''agendamento de servi'' @ [CHR 0xE7] @ ''os''])]"

text \<open>A search result is a dict.\<close>

type_synonym result = "(string \<times> json) list"

definition kb_result :: "string \<Rightarrow> string \<Rightarrow> string \<Rightarrow> result" where
  "kb_result tipo cat title =
     [(''tipo'', JStr tipo), (''categoria'', JStr cat), (''titulo'', JStr title),
      (''relevancia'', JStr ''alta''), (''fonte'', JStr ''base_conhecimento'')]"

text \<open>\<^verbatim>\<open>if category and cat != category: continue\<close>\<close>

definition category_skipped :: "string option \<Rightarrow> string \<Rightarrow> bool" where
  "category_skipped category cat = (category_given category \<and> Some cat \<noteq> category)"

text \<open>The knowledge-base pass (lines 596--620).\<close>

fun kb_pass :: "string \<Rightarrow> string option \<Rightarrow> (string \<times> string list \<times> string list) list \<Rightarrow> result list" where
  "kb_pass query_lower category [] = []"
| "kb_pass query_lower category ((cat, topics, issues) # rest) =
     (if category_skipped category cat then kb_pass query_lower category rest
      else map (kb_result ''topico'' cat) (filter (\<lambda>topic. py_in query_lower (py_lower topic)) topics)
         @ map (kb_result ''problema_comum'' cat)
             (filter (\<lambda>issue. py_in query_lower (py_lower issue)) issues)
         @ kb_pass query_lower category rest)"

text \<open>
  \<^verbatim>\<open>get_tutorials\<close> (lines 411--447). The whole body stands in a \<^verbatim>\<open>try\<close>: an
  error raised by \<^verbatim>\<open>exists()\<close> or by the loader ends the call with \<^verbatim>\<open>[]\<close>, also
  in the middle of the loop over the categories.
\<close>

definition urls_file :: "docs_repo \<Rightarrow> string \<Rightarrow> string" where
  "urls_file r cat = pjoin (pjoin (tutoriais_path r) cat) ''urls.json''"

definition tutoriais_of :: "docs_repo \<Rightarrow> string \<Rightarrow> py_error + json list" where
  "tutoriais_of r cat =
     (case load_urls_from_json (repo_fs r) (urls_file r cat) of
        Inl e \<Rightarrow> Inl e
      | Inr data \<Rightarrow> Inr (elements (dict_get data ''tutoriais'' (JArr []))))"

fun all_tutorials_loop :: "docs_repo \<Rightarrow> string list \<Rightarrow> json list \<Rightarrow> py_error + json list" where
  "all_tutorials_loop r [] all_tutorials = Inr all_tutorials"
| "all_tutorials_loop r (cat # cats) all_tutorials =
     (if fs_stat_error (repo_fs r) (urls_file r cat) then Inl OSError
      else if fs_exists (repo_fs r) (urls_file r cat)
      then (case tutoriais_of r cat of
              Inl e \<Rightarrow> Inl e
            | Inr ts \<Rightarrow> all_tutorials_loop r cats (all_tutorials @ ts))
      else all_tutorials_loop r cats all_tutorials)"

definition get_tutorials :: "docs_repo \<Rightarrow> string option \<Rightarrow> json list" where
  "get_tutorials r category =
     (case (if category_given category
            then (case category of
                    Some c \<Rightarrow>
                      if fs_stat_error (repo_fs r) (urls_file r c) then Inl OSError
                      else if \<not> fs_exists (repo_fs r) (urls_file r c) then Inr []
                      else tutoriais_of r c
                  | None \<Rightarrow> Inr [])
            else all_tutorials_loop r categories [])
      of Inl e \<Rightarrow> [] | Inr ts \<Rightarrow> ts)"

text \<open>
  The tutorial pass (lines 623--642). \<^verbatim>\<open>x.lower()\<close> raises AttributeError unless
  \<open>x\<close> is a string; \<^verbatim>\<open>.get\<close> does unless the tutorial is a dict; a list or dict is
  not hashable, so testing it against \<^verbatim>\<open>seen_urls\<close> raises TypeError, as iterating
  over a number, a boolean or \<^verbatim>\<open>None\<close> does.
\<close>

fun lower_str :: "json \<Rightarrow> py_error + string" where
  "lower_str (JStr s) = Inr (py_lower s)"
| "lower_str other = Inl AttributeError"

fun iterate :: "json \<Rightarrow> py_error + json list" where
  "iterate (JArr xs) = Inr xs"
| "iterate (JStr s) = Inr (map (\<lambda>c. JStr [c]) s)"
| "iterate (JObj kvs) = Inr (map (\<lambda>kv. JStr (fst kv)) kvs)"
| "iterate other = Inl TypeError"

fun lower_all :: "json list \<Rightarrow> py_error + string list" where
  "lower_all [] = Inr []"
| "lower_all (t # ts) =
     (case lower_str t of
        Inl e \<Rightarrow> Inl e
      | Inr low \<Rightarrow> (case lower_all ts of Inl e \<Rightarrow> Inl e | Inr lows \<Rightarrow> Inr (low # lows)))"

fun hashable :: "json \<Rightarrow> bool" where
  "hashable (JArr xs) = False"
| "hashable (JObj kvs) = False"
| "hashable other = True"

definition tutorial_result :: "(string \<times> json) list \<Rightarrow> json \<Rightarrow> result" where
  "tutorial_result tutorial url =
     [(''tipo'', JStr ''tutorial''),
      (''categoria'', dict_get tutorial ''categoria'' (JStr '''')),
      (''titulo'', dict_get tutorial ''titulo'' (JStr '''')),
      (''url'', url),
      (''topicos'', dict_get tutorial ''topicos'' (JArr [])),
      (''relevancia'', JStr ''alta''),
      (''fonte'', JStr ''tutoriais'')]"

fun tutorial_pass :: "string \<Rightarrow> json list \<Rightarrow> json list \<Rightarrow> result list \<Rightarrow> py_error + result list" where
  "tutorial_pass query_lower [] seen_urls results = Inr results"
| "tutorial_pass query_lower (JObj tutorial # rest) seen_urls results =
     (if \<not> hashable (dict_get tutorial ''url'' (JStr '''')) then Inl TypeError
      else if dict_get tutorial ''url'' (JStr '''') \<in> set seen_urls
      then tutorial_pass query_lower rest seen_urls results
      else (case lower_str (dict_get tutorial ''titulo'' (JStr '''')) of
              Inl e \<Rightarrow> Inl e
            | Inr titulo \<Rightarrow>
                (case iterate (dict_get tutorial ''topicos'' (JArr [])) of
                   Inl e \<Rightarrow> Inl e
                 | Inr ts \<Rightarrow>
                     (case lower_all ts of
                        Inl e \<Rightarrow> Inl e
                      | Inr topicos \<Rightarrow>
                          if py_in query_lower titulo \<or> list_ex (py_in query_lower) topicos
                          then tutorial_pass query_lower rest
                                 (dict_get tutorial ''url'' (JStr '''') # seen_urls)
                                 (results @ [tutorial_result tutorial (dict_get tutorial ''url'' (JStr ''''))])
                          else tutorial_pass query_lower rest seen_urls results))))"
| "tutorial_pass query_lower (other # rest) seen_urls results = Inl AttributeError"

text \<open>
  \<^verbatim>\<open>Path.stem\<close>: the name without its last suffix; a name has a suffix when its last
  dot is neither its first nor its last character.
\<close>

definition py_stem :: "string \<Rightarrow> string" where
  "py_stem name =
     (if CHR ''.'' \<notin> set name then name
      else (let i = length name - 1 - length (takeWhile (\<lambda>c. c \<noteq> CHR ''.'') (rev name))
            in if 0 < i \<and> i < length name - 1 then take i name else name))"

definition doc_result :: "string \<Rightarrow> string \<Rightarrow> string \<Rightarrow> result" where
  "doc_result cat title path =
     [(''tipo'', JStr ''documento''), (''categoria'', JStr cat), (''titulo'', JStr title),
      (''arquivo'', JStr path), (''relevancia'', JStr ''media''), (''fonte'', JStr ''documentos_md'')]"

text \<open>The inner loop of the document pass (lines 648--661 and 666--679) over the
  \<^verbatim>\<open>*.md\<close> files of one directory \<open>dir\<close>, whose category name is \<open>cat\<close>.\<close>

definition docs_in_dir :: "docs_repo \<Rightarrow> string \<Rightarrow> string \<Rightarrow> string \<Rightarrow> result list" where
  "docs_in_dir r query_lower dir cat =
     concat (map (\<lambda>name.
        case get_document r (py_stem name) ''md'' (Some cat) of
          None \<Rightarrow> []
        | Some text \<Rightarrow>
            if text \<noteq> [] \<and> py_in query_lower (py_lower text)
            then [doc_result cat (py_stem name) (pjoin dir name)] else [])
       (fs_glob_md (repo_fs r) dir))"

text \<open>
  The document pass (lines 645--679). \<^verbatim>\<open>md_dir.exists()\<close> (line 647),
  \<^verbatim>\<open>self.md_path.iterdir()\<close> (line 664) and \<^verbatim>\<open>cat_dir.is_dir()\<close> (line 665) stand
  outside every \<^verbatim>\<open>try\<close>: an OSError they raise leaves \<^verbatim>\<open>search_documentation\<close>.
\<close>

fun dirs_loop :: "docs_repo \<Rightarrow> string \<Rightarrow> string list \<Rightarrow> result list \<Rightarrow> py_error + result list" where
  "dirs_loop r query_lower [] docs = Inr docs"
| "dirs_loop r query_lower (name # names) docs =
     (if fs_stat_error (repo_fs r) (pjoin (md_path r) name) then Inl OSError
      else if fs_is_dir (repo_fs r) (pjoin (md_path r) name)
      then dirs_loop r query_lower names
             (docs @ docs_in_dir r query_lower (pjoin (md_path r) name) name)
      else dirs_loop r query_lower names docs)"

definition doc_pass :: "docs_repo \<Rightarrow> string \<Rightarrow> string option \<Rightarrow> py_error + result list" where
  "doc_pass r query_lower category =
     (if category_given category
      then (case category of
              Some c \<Rightarrow>
                if fs_stat_error (repo_fs r) (pjoin (md_path r) c) then Inl OSError
                else if fs_exists (repo_fs r) (pjoin (md_path r) c)
                then Inr (docs_in_dir r query_lower (pjoin (md_path r) c) c) else Inr []
            | None \<Rightarrow> Inr [])
      else (case fs_listdir (repo_fs r) (md_path r) of
              None \<Rightarrow> Inl OSError
            | Some names \<Rightarrow> dirs_loop r query_lower names []))"

text \<open>The list \<^verbatim>\<open>results\<close> as it stands at line 681, after the three passes.\<close>

definition collect_results :: "docs_repo \<Rightarrow> string \<Rightarrow> string option \<Rightarrow> py_error + result list" where
  "collect_results r query category =
     (case tutorial_pass (py_lower query) (get_tutorials r category) []
             (kb_pass (py_lower query) category DOCUMENTATION_MAP) of
        Inl e \<Rightarrow> Inl e
      | Inr results \<Rightarrow>
          (case doc_pass r (py_lower query) category of
             Inl e \<Rightarrow> Inl e
           | Inr docs \<Rightarrow> Inr (results @ docs)))"

text \<open>The key of line 685 and the loop of lines 682--690.\<close>

type_synonym result_key = "json option \<times> json option \<times> json"

definition key_of :: "result \<Rightarrow> result_key" where
  "key_of result = (map_of result ''tipo'', map_of result ''titulo'', dict_get result ''url'' (JStr ''''))"

fun unique_loop :: "result list \<Rightarrow> result_key list \<Rightarrow> result list \<Rightarrow> result list" where
  "unique_loop [] seen_keys unique_results = unique_results"
| "unique_loop (result # rest) seen_keys unique_results =
     (if key_of result \<notin> set seen_keys
      then (if length (unique_results @ [result]) \<ge> 10 then unique_results @ [result]
            else unique_loop rest (key_of result # seen_keys) (unique_results @ [result]))
      else unique_loop rest seen_keys unique_results)"

definition search_documentation :: "docs_repo \<Rightarrow> string \<Rightarrow> string option \<Rightarrow> py_error + result list" where
  "search_documentation r query category =
     (case collect_results r query category of
        Inl e \<Rightarrow> Inl e
      | Inr results \<Rightarrow> Inr (unique_loop results [] []))"



text \<open>A tutorial whose title is a string and whose topics are a list of strings.\<close>

fun well_typed_tutorial :: "json \<Rightarrow> bool" where
  "well_typed_tutorial (JObj tutorial) =
     (hashable (dict_get tutorial ''url'' (JStr '''')) \<and>
      is_JStr (dict_get tutorial ''titulo'' (JStr '''')) \<and>
      is_JArr (dict_get tutorial ''topicos'' (JArr [])) \<and>
      list_all is_JStr (elements (dict_get tutorial ''topicos'' (JArr []))))"
| "well_typed_tutorial other = False"

text \<open>
  The directories the document pass examines outside a \<^verbatim>\<open>try\<close> can be examined: the
  directory of the category when one is given; otherwise the Markdown root can be listed
  and the status of each of its entries can be read.
\<close>

definition dirs_readable :: "docs_repo \<Rightarrow> string option \<Rightarrow> bool" where
  "dirs_readable r category =
     (if category_given category
      then (case category of
              Some c \<Rightarrow> \<not> fs_stat_error (repo_fs r) (pjoin (md_path r) c)
            | None \<Rightarrow> True)
      else (case fs_listdir (repo_fs r) (md_path r) of
              None \<Rightarrow> False
            | Some names \<Rightarrow>
                list_all (\<lambda>name. \<not> fs_stat_error (repo_fs r) (pjoin (md_path r) name)) names))"







section \<open>Properties of the URL content cache\<close>

lemma clean_expired_simps:
  "entries (URLCache_clean_expired now c) = filter (\<lambda>(key, e). \<not> expires_at e < now) (entries c)"
  "ttl (URLCache_clean_expired now c) = ttl c"
  "max_size (URLCache_clean_expired now c) = max_size c"
  by (simp_all add: URLCache_clean_expired_def)

lemma clean_expired_fresh:
  assumes "\<forall>(key, e) \<in> set (entries c). \<not> expires_at e < now"
  shows "URLCache_clean_expired now c = c"
proof -
  have "filter (\<lambda>(key, e). \<not> expires_at e < now) (entries c) = entries c"
    by (rule filter_True) (use assms in auto)
  then show ?thesis by (simp add: URLCache_clean_expired_def)
qed

text \<open>
  C2 (as stated): \<^verbatim>\<open>stats()\<close> leaves the entry map and the recency order unchanged.
  It does not: \<^verbatim>\<open>get_stats\<close> begins with \<^verbatim>\<open>self._clean_expired()\<close>, so an
  entry whose expiry lies before the clock reading is deleted by the call. Here the only
  entry expires at 5, the statistics are taken at 10, and the cache is empty afterwards.
\<close>

theorem get_stats_mutates_counterexample:
  "entries (snd (URLCache_get_stats 10 10 stale_cache)) = [] \<and> entries stale_cache \<noteq> []"
  by (simp add: URLCache_get_stats_def URLCache_clean_expired_def stale_cache_def)

text \<open>
  C2 (amended): \<^verbatim>\<open>stats()\<close> first deletes every entry with
  \<open>expires_at < t_clean\<close> (the purge of \<^verbatim>\<open>_clean_expired\<close>), keeping the other
  entries in their order; over the entries that remain it reports their number as total,
  those with \<open>expires_at > now\<close> as valid and the remainder as expired. The cache is
  unchanged exactly when the purge finds nothing to delete, in particular when no entry
  has \<open>expires_at < t_clean\<close>.
\<close>

theorem get_stats_purges_then_counts:
  "snd (URLCache_get_stats t_clean now c) = URLCache_clean_expired t_clean c \<and>
   entries (snd (URLCache_get_stats t_clean now c))
     = filter (\<lambda>(key, e). \<not> expires_at e < t_clean) (entries c) \<and>
   total_entries (fst (URLCache_get_stats t_clean now c))
     = length (entries (snd (URLCache_get_stats t_clean now c))) \<and>
   valid_entries (fst (URLCache_get_stats t_clean now c))
     = length (filter (\<lambda>(key, e). expires_at e > now)
         (entries (snd (URLCache_get_stats t_clean now c)))) \<and>
   expired_entries (fst (URLCache_get_stats t_clean now c))
     = length (filter (\<lambda>(key, e). \<not> expires_at e > now)
         (entries (snd (URLCache_get_stats t_clean now c)))) \<and>
   ((\<forall>(key, e) \<in> set (entries c). \<not> expires_at e < t_clean)
      \<longrightarrow> snd (URLCache_get_stats t_clean now c) = c)"
proof -
  let ?c' = "URLCache_clean_expired t_clean c"
  let ?P = "\<lambda>(key::string, e::entry). expires_at e > now"
  have len: "length (filter (\<lambda>x. \<not> ?P x) (entries ?c'))
               = length (entries ?c') - length (filter ?P (entries ?c'))"
    using sum_length_filter_compl [of ?P "entries ?c'"] by simp
  have eq: "(\<lambda>x. \<not> ?P x) = (\<lambda>(key, e). \<not> expires_at e > now)" by auto
  have c': "snd (URLCache_get_stats t_clean now c) = ?c'"
    by (simp add: URLCache_get_stats_def Let_def)
  have st: "total_entries (fst (URLCache_get_stats t_clean now c)) = length (entries ?c')"
     "valid_entries (fst (URLCache_get_stats t_clean now c)) = length (filter ?P (entries ?c'))"
     "expired_entries (fst (URLCache_get_stats t_clean now c))
        = length (entries ?c') - length (filter ?P (entries ?c'))"
    by (simp_all add: URLCache_get_stats_def Let_def)
  show ?thesis
    using c' st len eq clean_expired_fresh [of c t_clean]
    by (simp add: clean_expired_simps)
qed

theorem get_stats_purges_then_counts_witness:
  "list_all (\<lambda>(key, e). \<not> expires_at e < 5) (entries fresh_cache) \<and>
   snd (URLCache_get_stats 5 6 fresh_cache) = fresh_cache \<and>
   total_entries (fst (URLCache_get_stats 5 6 fresh_cache)) = 2 \<and>
   valid_entries (fst (URLCache_get_stats 5 6 fresh_cache)) = 1 \<and>
   expired_entries (fst (URLCache_get_stats 5 6 fresh_cache)) = 1"
  using get_stats_purges_then_counts [of 5 6 fresh_cache]
  by (simp add: fresh_cache_def URLCache_clean_expired_def)

subsection \<open>Size bound and eviction order\<close>

lemma length_update_le: "length (AList.update k v al) \<le> Suc (length al)"
  by (induction al) auto

lemma length_clean_le: "length (entries (URLCache_clean_expired now c)) \<le> length (entries c)"
  by (simp add: clean_expired_simps)

lemma length_delete_less:
  "(k, v) \<in> set al \<Longrightarrow> length (AList.delete k al) < length al"
  by (induction al) (auto simp: less_Suc_eq_le AList.length_delete_le)

lemma length_move_to_end_le: "length (move_to_end url kvs) \<le> length kvs"
proof (cases "map_of kvs url")
  case None
  then show ?thesis by (simp add: move_to_end_def)
next
  case (Some e)
  then have "(url, e) \<in> set kvs" by (rule map_of_SomeD)
  then have "length (AList.delete url kvs) < length kvs" by (rule length_delete_less)
  with Some show ?thesis by (simp add: move_to_end_def)
qed

lemma get_fields:
  "max_size (snd (URLCache_get now url c)) = max_size c"
  "ttl (snd (URLCache_get now url c)) = ttl c"
  by (simp_all add: URLCache_get_def split: option.splits)

lemma length_get_le: "length (entries (snd (URLCache_get now url c))) \<le> length (entries c)"
  by (simp add: URLCache_get_def AList.length_delete_le length_move_to_end_le split: option.splits)

lemma set_fields:
  "max_size (snd (URLCache_set t_clean t_exp t_cached url cont c)) = max_size c"
  "ttl (snd (URLCache_set t_clean t_exp t_cached url cont c)) = ttl c"
  by (simp_all add: URLCache_set_def Let_def clean_expired_simps split: list.splits)

lemma length_set_le:
  assumes "int (length (entries c)) \<le> max_size c"
  shows "int (length (entries (snd (URLCache_set t_clean t_exp t_cached url cont c)))) \<le> max_size c"
proof -
  let ?c1 = "URLCache_clean_expired t_clean c"
  have l1: "int (length (entries ?c1)) \<le> max_size c"
    using assms length_clean_le [of t_clean c] by linarith
  show ?thesis
  proof (cases "int (length (entries ?c1)) \<ge> max_size ?c1")
    case True
    show ?thesis
    proof (cases "entries ?c1")
      case Nil
      with True l1 show ?thesis
        by (simp add: URLCache_set_def Let_def clean_expired_simps)
    next
      case (Cons oldest rest)
      have "length (AList.update url \<lparr>content = cont, expires_at = t_exp + ttl c, cached_at = t_cached\<rparr> rest)
              \<le> Suc (length rest)" by (rule length_update_le)
      with True l1 Cons show ?thesis
        by (simp add: URLCache_set_def Let_def clean_expired_simps)
    qed
  next
    case False
    have "length (AList.update url \<lparr>content = cont, expires_at = t_exp + ttl c, cached_at = t_cached\<rparr> (entries ?c1))
              \<le> Suc (length (entries ?c1))" by (rule length_update_le)
    with False show ?thesis
      by (simp add: URLCache_set_def Let_def clean_expired_simps)
  qed
qed

lemma call_fields:
  "max_size (call x c) = max_size c"
  "ttl (call x c) = ttl c"
  by (cases x; simp add: get_fields set_fields URLCache_get_stats_def Let_def clean_expired_simps URLCache_clear_def)+

lemma length_call_le:
  assumes "int (length (entries c)) \<le> max_size c"
  shows "int (length (entries (call x c))) \<le> max_size c"
proof (cases x)
  case (Get now url)
  then show ?thesis using assms length_get_le [of now url c] by simp
next
  case (Set t_clean t_exp t_cached url cont)
  then show ?thesis using length_set_le [OF assms] by simp
next
  case (GetStats t_clean now)
  then show ?thesis using assms length_clean_le [of t_clean c]
    by (simp add: URLCache_get_stats_def Let_def)
next
  case Clear
  then show ?thesis using assms by (simp add: URLCache_clear_def)
qed

lemma calls_fields:
  "max_size (calls xs c) = max_size c \<and> ttl (calls xs c) = ttl c"
  by (induction xs arbitrary: c) (simp_all add: call_fields)

lemma length_calls_le:
  "int (length (entries c)) \<le> max_size c \<Longrightarrow> int (length (entries (calls xs c))) \<le> max_size c"
proof (induction xs arbitrary: c)
  case Nil
  then show ?case by simp
next
  case (Cons x xs)
  have "int (length (entries (call x c))) \<le> max_size (call x c)"
    using length_call_le [OF Cons.prems] by (simp add: call_fields)
  from Cons.IH [OF this] show ?case by (simp add: call_fields)
qed

lemma update_new_key: "k \<notin> fst ` set al \<Longrightarrow> AList.update k v al = al @ [(k, v)]"
  by (induction al) auto

lemma set_append:
  assumes "\<forall>(key, e) \<in> set (entries c). \<not> expires_at e < t_clean"
    and "url \<notin> fst ` set (entries c)"
    and "int (length (entries c)) < max_size c"
  shows "URLCache_set t_clean t_exp t_cached url cont c =
           (None, c\<lparr>entries := entries c @
              [(url, \<lparr>content = cont, expires_at = t_exp + ttl c, cached_at = t_cached\<rparr>)]\<rparr>)"
  using assms(2,3)
  by (simp add: URLCache_set_def clean_expired_fresh [OF assms(1)] update_new_key)

lemma set_evict:
  assumes "\<forall>(key, e) \<in> set (entries c). \<not> expires_at e < t_clean"
    and "url \<notin> fst ` set (entries c)"
    and "int (length (entries c)) \<ge> max_size c"
    and "entries c = oldest # rest"
  shows "URLCache_set t_clean t_exp t_cached url cont c =
           (None, c\<lparr>entries := rest @
              [(url, \<lparr>content = cont, expires_at = t_exp + ttl c, cached_at = t_cached\<rparr>)]\<rparr>)"
proof -
  have "url \<notin> fst ` set rest" using assms(2,4) by auto
  then show ?thesis
    using assms(3,4)
    by (simp add: URLCache_set_def clean_expired_fresh [OF assms(1)] update_new_key)
qed

lemma calls_append: "calls (xs @ ys) c = calls ys (calls xs c)"
  by (induction xs arbitrary: c) simp_all

lemma insertions_fill:
  assumes "\<forall>(key, e) \<in> set (entries c). \<forall>b \<in> set ins. \<not> expires_at e < ins_clean b"
    and "\<forall>a \<in> set ins. \<forall>b \<in> set ins. \<not> ins_exp a + ttl c < ins_clean b"
    and "distinct (map ins_url ins)"
    and "set (map ins_url ins) \<inter> fst ` set (entries c) = {}"
    and "int (length (entries c) + length ins) \<le> max_size c"
  shows "entries (calls (map insert_call ins) c) = entries c @ map (ins_entry (ttl c)) ins"
  using assms
proof (induction ins arbitrary: c)
  case Nil
  then show ?case by simp
next
  case (Cons i ins)
  let ?c' = "c\<lparr>entries := entries c @ [ins_entry (ttl c) i]\<rparr>"
  have fresh: "\<forall>(key, e) \<in> set (entries c). \<not> expires_at e < ins_clean i"
    using Cons.prems(1) by auto
  have new: "ins_url i \<notin> fst ` set (entries c)" using Cons.prems(4) by auto
  have room: "int (length (entries c)) < max_size c" using Cons.prems(5) by simp
  have step: "call (insert_call i) c = ?c'"
    using set_append [OF fresh new room] by (simp add: insert_call_def ins_entry_def)
  have 1: "\<forall>(key, e) \<in> set (entries ?c'). \<forall>b \<in> set ins. \<not> expires_at e < ins_clean b"
    using Cons.prems(1,2) by (auto simp: ins_entry_def)
  have 2: "\<forall>a \<in> set ins. \<forall>b \<in> set ins. \<not> ins_exp a + ttl ?c' < ins_clean b"
    using Cons.prems(2) by simp
  have 3: "distinct (map ins_url ins)" using Cons.prems(3) by simp
  have 4: "set (map ins_url ins) \<inter> fst ` set (entries ?c') = {}"
    using Cons.prems(3,4) by (auto simp: ins_entry_def)
  have 5: "int (length (entries ?c') + length ins) \<le> max_size ?c'"
    using Cons.prems(5) by simp
  from Cons.IH [OF 1 2 3 4 5] step show ?case by simp
qed

lemma insertions_overflow:
  assumes ms: "1 \<le> ms"
    and len: "length ins = nat ms + 1"
    and dist: "distinct (map ins_url ins)"
    and fresh: "\<forall>a \<in> set ins. \<forall>b \<in> set ins. \<not> ins_exp a + ttl0 < ins_clean b"
  shows "entries (calls (map insert_call ins) (URLCache_init ttl0 ms)) = map (ins_entry ttl0) (tl ins)"
proof -
  let ?c0 = "URLCache_init ttl0 ms"
  have "ins \<noteq> []" using len by auto
  then obtain xs y where split: "ins = xs @ [y]"
    by (cases ins rule: rev_cases) auto
  have lxs: "length xs = nat ms" using len split by simp
  then have "0 < length xs" using ms by linarith
  then obtain x xs' where xs: "xs = x # xs'" by (cases xs) auto
  have fields: "ttl ?c0 = ttl0" "max_size ?c0 = ms" "entries ?c0 = []"
    by (simp_all add: URLCache_init_def)
  have "entries (calls (map insert_call xs) ?c0) = entries ?c0 @ map (ins_entry (ttl ?c0)) xs"
  proof (rule insertions_fill)
    show "\<forall>(key, e) \<in> set (entries ?c0). \<forall>b \<in> set xs. \<not> expires_at e < ins_clean b"
      by (simp add: fields)
    show "\<forall>a \<in> set xs. \<forall>b \<in> set xs. \<not> ins_exp a + ttl ?c0 < ins_clean b"
      using fresh split by (simp add: fields)
    show "distinct (map ins_url xs)" using dist split by simp
    show "set (map ins_url xs) \<inter> fst ` set (entries ?c0) = {}" by (simp add: fields)
    show "int (length (entries ?c0) + length xs) \<le> max_size ?c0"
      using lxs ms by (simp add: fields)
  qed
  then have mid: "entries (calls (map insert_call xs) ?c0) = map (ins_entry ttl0) xs"
    by (simp add: fields)
  let ?c1 = "calls (map insert_call xs) ?c0"
  have f1: "ttl ?c1 = ttl0" "max_size ?c1 = ms"
    using calls_fields [of "map insert_call xs" ?c0] by (simp_all add: fields)
  have ynew: "ins_url y \<notin> ins_url ` set xs" using dist split by simp
  have "URLCache_set (ins_clean y) (ins_exp y) (ins_cached y) (ins_url y) (ins_content y) ?c1
          = (None, ?c1\<lparr>entries := map (ins_entry ttl0) xs' @
              [(ins_url y, \<lparr>content = ins_content y, expires_at = ins_exp y + ttl ?c1,
                 cached_at = ins_cached y\<rparr>)]\<rparr>)"
  proof (rule set_evict)
    show "\<forall>(key, e) \<in> set (entries ?c1). \<not> expires_at e < ins_clean y"
      using fresh split by (auto simp: mid ins_entry_def)
    show "ins_url y \<notin> fst ` set (entries ?c1)"
      using ynew by (auto simp: mid ins_entry_def image_iff)
    show "max_size ?c1 \<le> int (length (entries ?c1))"
      using lxs ms by (simp add: mid f1)
    show "entries ?c1 = ins_entry ttl0 x # map (ins_entry ttl0) xs'"
      using mid unfolding xs by simp
  qed
  then have "entries (call (insert_call y) ?c1) = map (ins_entry ttl0) (xs' @ [y])"
    by (simp add: insert_call_def ins_entry_def f1)
  moreover have "tl ins = xs' @ [y]" by (simp add: split xs)
  moreover have "calls (map insert_call ins) ?c0 = call (insert_call y) ?c1"
    by (simp add: split calls_append)
  ultimately show ?thesis by simp
qed

lemma get_hit:
  assumes "map_of (entries c) url = Some e" and "\<not> now > expires_at e"
  shows "URLCache_get now url c = (Some (content e), c\<lparr>entries := AList.delete url (entries c) @ [(url, e)]\<rparr>)"
  using assms by (simp add: URLCache_get_def move_to_end_def)

lemma get_expired:
  assumes "map_of (entries c) url = Some e" and "now > expires_at e"
  shows "URLCache_get now url c = (None, c\<lparr>entries := AList.delete url (entries c)\<rparr>)"
  using assms by (simp add: URLCache_get_def)

lemma get_miss:
  assumes "map_of (entries c) url = None"
  shows "URLCache_get now url c = (None, c)"
  using assms by (simp add: URLCache_get_def)

lemma set_stores:
  assumes "fst (URLCache_set t_clean t_exp t_cached url cont c) = None"
  shows "map_of (entries (snd (URLCache_set t_clean t_exp t_cached url cont c))) url
           = Some \<lparr>content = cont, expires_at = t_exp + ttl c, cached_at = t_cached\<rparr>"
  using assms
  by (auto simp: URLCache_set_def Let_def clean_expired_simps AList.update_conv'
           split: if_splits list.splits)

lemma mru_survives_set:
  assumes big: "2 \<le> max_size c"
    and e: "map_of (entries c) A = Some e"
    and hit: "\<not> now > expires_at e"
    and keep: "\<not> expires_at e < t_clean"
  shows "A \<in> fst ` set (entries (snd (URLCache_set t_clean t_exp t_cached B cont
                                        (snd (URLCache_get now A c)))))"
proof -
  let ?P = "\<lambda>(key::string, e::entry). \<not> expires_at e < t_clean"
  let ?L = "filter ?P (AList.delete A (entries c))"
  let ?c' = "snd (URLCache_get now A c)"
  let ?new = "\<lparr>content = cont, expires_at = t_exp + ttl c, cached_at = t_cached\<rparr>"
  have c': "?c' = c\<lparr>entries := AList.delete A (entries c) @ [(A, e)]\<rparr>"
    using get_hit [OF e hit] by simp
  have purged: "entries (URLCache_clean_expired t_clean ?c') = ?L @ [(A, e)]"
    using keep by (simp add: c' clean_expired_simps)
  show ?thesis
  proof (cases "int (length (?L @ [(A, e)])) \<ge> max_size c")
    case True
    then have "?L \<noteq> []" using big by auto
    then obtain x L' where L: "?L = x # L'" by (cases ?L) auto
    have "entries (snd (URLCache_set t_clean t_exp t_cached B cont ?c'))
            = AList.update B ?new (L' @ [(A, e)])"
      using True purged L
      by (simp add: URLCache_set_def Let_def clean_expired_simps c')
    then show ?thesis by (simp add: AList.dom_update)
  next
    case False
    then have "entries (snd (URLCache_set t_clean t_exp t_cached B cont ?c'))
            = AList.update B ?new (?L @ [(A, e)])"
      using purged
      by (simp add: URLCache_set_def Let_def clean_expired_simps c')
    then show ?thesis by (simp add: AList.dom_update)
  qed
qed

lemma update_present_keys: "k \<in> fst ` set al \<Longrightarrow> map fst (AList.update k v al) = map fst al"
  by (simp add: AList.update_keys)

lemma update_present_length: "k \<in> fst ` set al \<Longrightarrow> length (AList.update k v al) = length al"
  using update_present_keys [of k al v] by (metis length_map)

text \<open>
  C4 (as stated): the entry most recently accessed through \<^verbatim>\<open>get\<close> is never the one
  evicted by a subsequent insertion. With \<open>max_size = 1\<close> it is: the cache holds only
  \<open>A\<close>, \<^verbatim>\<open>get(A)\<close> hits, and the following \<^verbatim>\<open>set(B, ...)\<close> finds the cache full
  and removes its first entry, which is \<open>A\<close>.
\<close>

theorem mru_evicted_counterexample:
  "fst (URLCache_get 1 ''A'' single_cache) = Some ''x'' \<and>
   map fst (entries (snd (URLCache_set 2 2 2 ''B'' ''y'' (snd (URLCache_get 1 ''A'' single_cache)))))
     = [''B'']"
  by (simp add: single_cache_def URLCache_get_def URLCache_set_def URLCache_clean_expired_def
        move_to_end_def)

text \<open>
  C4 (amended). (1) For \<open>max_size \<ge> 0\<close>, a cache that starts empty never holds more than
  \<open>max_size\<close> entries, whatever sequence of \<^verbatim>\<open>get\<close>, \<^verbatim>\<open>set\<close>,
  \<^verbatim>\<open>get_stats\<close> and \<^verbatim>\<open>clear\<close> calls is made. (2) For \<open>max_size \<ge> 1\<close>, inserting
  \<open>max_size + 1\<close> distinct URLs into the empty cache, none of them expired at any purge,
  leaves exactly \<open>max_size\<close> entries: all but the first inserted (the least recently
  used), in insertion order. (3) For \<open>max_size \<ge> 2\<close>, an entry that \<^verbatim>\<open>get\<close> has just
  returned, and that is not expired at the purge of the next \<^verbatim>\<open>set\<close>, is still in the
  cache after that \<^verbatim>\<open>set\<close>.
\<close>

theorem cache_bound_and_lru:
  "(0 \<le> ms \<longrightarrow> int (length (entries (calls xs (URLCache_init ttl0 ms)))) \<le> ms) \<and>
   (1 \<le> ms \<and> length ins = nat ms + 1 \<and> distinct (map ins_url ins) \<and>
    (\<forall>a \<in> set ins. \<forall>b \<in> set ins. \<not> ins_exp a + ttl0 < ins_clean b)
      \<longrightarrow> entries (calls (map insert_call ins) (URLCache_init ttl0 ms)) = map (ins_entry ttl0) (tl ins)
        \<and> int (length (entries (calls (map insert_call ins) (URLCache_init ttl0 ms)))) = ms) \<and>
   (2 \<le> max_size c \<and> map_of (entries c) A = Some e \<and> \<not> now > expires_at e \<and>
    \<not> expires_at e < t_clean
      \<longrightarrow> fst (URLCache_get now A c) = Some (content e)
        \<and> A \<in> fst ` set (entries (snd (URLCache_set t_clean t_exp t_cached B cont
                                          (snd (URLCache_get now A c))))))"
proof (intro conjI impI)
  assume "0 \<le> ms"
  then have "int (length (entries (URLCache_init ttl0 ms))) \<le> max_size (URLCache_init ttl0 ms)"
    by (simp add: URLCache_init_def)
  from length_calls_le [OF this] show "int (length (entries (calls xs (URLCache_init ttl0 ms)))) \<le> ms"
    by (simp add: URLCache_init_def)
next
  assume h: "1 \<le> ms \<and> length ins = nat ms + 1 \<and> distinct (map ins_url ins) \<and>
    (\<forall>a \<in> set ins. \<forall>b \<in> set ins. \<not> ins_exp a + ttl0 < ins_clean b)"
  then have eq: "entries (calls (map insert_call ins) (URLCache_init ttl0 ms)) = map (ins_entry ttl0) (tl ins)"
    by (intro insertions_overflow) blast+
  show "entries (calls (map insert_call ins) (URLCache_init ttl0 ms)) = map (ins_entry ttl0) (tl ins)"
    by (rule eq)
  show "int (length (entries (calls (map insert_call ins) (URLCache_init ttl0 ms)))) = ms"
    using h by (simp add: eq)
next
  assume h: "2 \<le> max_size c \<and> map_of (entries c) A = Some e \<and> \<not> now > expires_at e \<and>
    \<not> expires_at e < t_clean"
  show "fst (URLCache_get now A c) = Some (content e)"
    using h get_hit [of c A e now] by simp
  show "A \<in> fst ` set (entries (snd (URLCache_set t_clean t_exp t_cached B cont
                                          (snd (URLCache_get now A c)))))"
    using h by (intro mru_survives_set) blast+
qed

theorem cache_bound_and_lru_witness:
  "int (length (entries (calls three_calls (URLCache_init 10 2)))) \<le> 2 \<and>
   entries (calls (map insert_call three_insertions) (URLCache_init 10 2))
     = map (ins_entry 10) (tl three_insertions) \<and>
   map fst (entries (calls (map insert_call three_insertions) (URLCache_init 10 2))) = [''b'', ''c''] \<and>
   fst (URLCache_get 5 ''a'' full_cache) = Some ''x'' \<and>
   ''a'' \<in> fst ` set (entries (snd (URLCache_set 6 6 6 ''d'' ''w'' (snd (URLCache_get 5 ''a'' full_cache)))))"
  using cache_bound_and_lru [of 2 three_calls 10 three_insertions full_cache "''a''"
      "\<lparr>content = ''x'', expires_at = 10, cached_at = 0\<rparr>" 5 6 6 6 "''d''" "''w''"]
  by (simp add: three_insertions_def full_cache_def ins_entry_def)

subsection \<open>Distinct keys\<close>

text \<open>The keys of the cache stay pairwise different, as the keys of a dict are.\<close>

lemma distinct_move_to_end:
  "distinct (map fst kvs) \<Longrightarrow> distinct (map fst (move_to_end url kvs))"
  by (cases "map_of kvs url")
     (auto simp: move_to_end_def AList.delete_keys distinct_removeAll)

lemma distinct_get:
  "distinct (map fst (entries c)) \<Longrightarrow> distinct (map fst (entries (snd (URLCache_get now url c))))"
  by (simp add: URLCache_get_def distinct_move_to_end AList.distinct_delete split: option.splits)

lemma distinct_clean:
  "distinct (map fst (entries c)) \<Longrightarrow> distinct (map fst (entries (URLCache_clean_expired now c)))"
  by (simp add: clean_expired_simps distinct_map_filter)

lemma distinct_set:
  assumes "distinct (map fst (entries c))"
  shows "distinct (map fst (entries (snd (URLCache_set t_clean t_exp t_cached url cont c))))"
proof -
  let ?c1 = "URLCache_clean_expired t_clean c"
  have d: "distinct (map fst (entries ?c1))" by (rule distinct_clean [OF assms])
  then have "distinct (map fst (tl (entries ?c1)))" by (simp add: distinct_tl map_tl)
  with d show ?thesis
    by (auto simp: URLCache_set_def Let_def AList.distinct_update split: list.splits)
qed

lemma distinct_call:
  "distinct (map fst (entries c)) \<Longrightarrow> distinct (map fst (entries (call x c)))"
  by (cases x)
     (simp_all add: distinct_get distinct_set distinct_clean URLCache_get_stats_def Let_def
        URLCache_clear_def)

lemma distinct_calls:
  "distinct (map fst (entries c)) \<Longrightarrow> distinct (map fst (entries (calls xs c)))"
  by (induction xs arbitrary: c) (simp_all add: distinct_call)

lemma distinct_reachable: "distinct (map fst (entries (calls xs (URLCache_init ttl0 ms))))"
  by (rule distinct_calls) (simp add: URLCache_init_def)

subsection \<open>Time to live\<close>

text \<open>
  C3 (as stated): \<open>expires_at = cached_at + ttl\<close> for every stored entry, and
  \<^verbatim>\<open>get\<close> returns the content iff \<open>now \<le> cached_at + ttl\<close>. The source reads the
  clock once for \<^verbatim>\<open>expires_at\<close> (line 146) and again for \<^verbatim>\<open>cached_at\<close>
  (line 150), and \<^verbatim>\<open>get\<close> compares with \<^verbatim>\<open>expires_at\<close> only. When the second
  reading is one microsecond later than the first, the stored entry has
  \<open>expires_at = 10\<close> and \<open>cached_at + ttl = 11\<close>, and \<^verbatim>\<open>get\<close> at time 11 returns
  absent although \<open>11 \<le> cached_at + ttl\<close>.
\<close>

theorem expiry_not_cached_at_plus_ttl_counterexample:
  "map_of (entries (snd (URLCache_set 0 0 1 ''u'' ''x'' (URLCache_init 10 5)))) ''u''
     = Some \<lparr>content = ''x'', expires_at = 10, cached_at = 1\<rparr> \<and>
   (10::int) \<noteq> 1 + ttl (snd (URLCache_set 0 0 1 ''u'' ''x'' (URLCache_init 10 5))) \<and>
   (11::int) \<le> 1 + ttl (snd (URLCache_set 0 0 1 ''u'' ''x'' (URLCache_init 10 5))) \<and>
   fst (URLCache_get 11 ''u'' (snd (URLCache_set 0 0 1 ''u'' ''x'' (URLCache_init 10 5)))) = None"
  by (simp add: URLCache_init_def URLCache_set_def URLCache_clean_expired_def URLCache_get_def)

text \<open>
  C3 (amended): an entry that \<^verbatim>\<open>set\<close> stores has \<open>expires_at = t_exp + ttl\<close>, where
  \<open>t_exp\<close> is the clock reading taken for the expiry (so \<open>expires_at = cached_at + ttl\<close>
  whenever the reading taken for \<^verbatim>\<open>cached_at\<close> is the same). For an entry \<open>e\<close> in the
  cache, \<^verbatim>\<open>get(url)\<close> returns its content iff \<open>now \<le> expires_at e\<close>; once
  \<open>now > expires_at e\<close>, \<^verbatim>\<open>get\<close> returns absent and the entry is removed from the
  cache.
\<close>

theorem ttl_set_then_get:
  "(fst (URLCache_set t_clean t_exp t_cached url cont c) = None \<longrightarrow>
      map_of (entries (snd (URLCache_set t_clean t_exp t_cached url cont c))) url
        = Some \<lparr>content = cont, expires_at = t_exp + ttl c, cached_at = t_cached\<rparr> \<and>
      (t_cached = t_exp \<longrightarrow>
         map_of (entries (snd (URLCache_set t_clean t_exp t_cached url cont c))) url
           = Some \<lparr>content = cont, expires_at = t_cached + ttl c, cached_at = t_cached\<rparr>)) \<and>
   (map_of (entries c) url = Some e \<longrightarrow>
      ((fst (URLCache_get now url c) = Some (content e)) = (now \<le> expires_at e)) \<and>
      (now > expires_at e \<longrightarrow>
         fst (URLCache_get now url c) = None \<and>
         entries (snd (URLCache_get now url c)) = AList.delete url (entries c) \<and>
         map_of (entries (snd (URLCache_get now url c))) url = None))"
proof (intro conjI impI)
  assume ok: "fst (URLCache_set t_clean t_exp t_cached url cont c) = None"
  show "map_of (entries (snd (URLCache_set t_clean t_exp t_cached url cont c))) url
        = Some \<lparr>content = cont, expires_at = t_exp + ttl c, cached_at = t_cached\<rparr>"
    by (rule set_stores [OF ok])
  assume "t_cached = t_exp"
  then show "map_of (entries (snd (URLCache_set t_clean t_exp t_cached url cont c))) url
        = Some \<lparr>content = cont, expires_at = t_cached + ttl c, cached_at = t_cached\<rparr>"
    using set_stores [OF ok] by simp
next
  assume e: "map_of (entries c) url = Some e"
  show "(fst (URLCache_get now url c) = Some (content e)) = (now \<le> expires_at e)"
    using e by (simp add: URLCache_get_def)
  assume late: "now > expires_at e"
  show "fst (URLCache_get now url c) = None"
    using get_expired [OF e late] by simp
  show "entries (snd (URLCache_get now url c)) = AList.delete url (entries c)"
    using get_expired [OF e late] by simp
  then show "map_of (entries (snd (URLCache_get now url c))) url = None"
    by (simp add: AList.delete_conv')
qed

theorem ttl_set_then_get_witness:
  "fst (URLCache_set 0 3 3 ''b'' ''new'' fresh_cache) = None \<and>
   map_of (entries (snd (URLCache_set 0 3 3 ''b'' ''new'' fresh_cache))) ''b''
     = Some \<lparr>content = ''new'', expires_at = 8, cached_at = 3\<rparr> \<and>
   map_of (entries fresh_cache) ''b'' = Some \<lparr>content = ''y'', expires_at = 7, cached_at = 2\<rparr> \<and>
   fst (URLCache_get 7 ''b'' fresh_cache) = Some ''y'' \<and>
   fst (URLCache_get 8 ''b'' fresh_cache) = None \<and>
   map fst (entries (snd (URLCache_get 8 ''b'' fresh_cache))) = [''a'']"
  using ttl_set_then_get [of 0 3 3 "''b''" "''new''" fresh_cache
          "\<lparr>content = ''y'', expires_at = 7, cached_at = 2\<rparr>" 7]
        ttl_set_then_get [of 0 3 3 "''b''" "''new''" fresh_cache
          "\<lparr>content = ''y'', expires_at = 7, cached_at = 2\<rparr>" 8]
  by (simp add: fresh_cache_def URLCache_set_def URLCache_clean_expired_def)

subsection \<open>Overwriting a key\<close>

text \<open>
  C10 (as stated): when \<^verbatim>\<open>set(url, ...)\<close> is called on a cache that contains \<open>url\<close>
  (fresh) and holds exactly \<open>max_size\<close> entries, and \<open>url\<close> is not the least recently
  used, the cache ends with \<open>max_size - 1\<close> entries. Not when other entries have
  expired: here the cache holds 3 = \<open>max_size\<close> entries, \<open>c\<close> is fresh and last, the
  purge deletes \<open>a\<close> and \<open>b\<close>, no eviction follows, and one entry is left, not two.
\<close>

theorem overwrite_when_full_counterexample:
  "int (length (entries half_stale_cache)) = max_size half_stale_cache \<and>
   map_of (entries half_stale_cache) ''c'' = Some \<lparr>content = ''z'', expires_at = 200, cached_at = 190\<rparr> \<and>
   \<not> (100::int) > 200 \<and>
   map fst (entries (snd (URLCache_set 100 100 100 ''c'' ''new'' half_stale_cache))) = [''c''] \<and>
   int (length (entries (snd (URLCache_set 100 100 100 ''c'' ''new'' half_stale_cache))))
     \<noteq> max_size half_stale_cache - 1"
  by (simp add: half_stale_cache_def URLCache_set_def URLCache_clean_expired_def)

text \<open>
  C10 (amended): let \<^verbatim>\<open>set(url, content)\<close> be called on a cache with distinct keys in
  which no entry is expired at the purge. If the cache holds exactly \<open>max_size\<close>
  entries, its first (least recently used) entry is removed although no key is added:
  when \<open>url\<close> is one of the other keys, the cache ends with \<open>max_size - 1\<close> entries, the
  remaining keys keep their order (\<open>url\<close> is not moved to the most recently used end) and
  \<open>url\<close> holds the new entry; when \<open>url\<close> is the least recently used key itself, it is
  removed and appended again at the most recently used end, and the size stays
  \<open>max_size\<close>. If the cache holds fewer than \<open>max_size\<close> entries, overwriting \<open>url\<close>
  leaves the order of the keys as it was.
\<close>

theorem overwrite_existing_key:
  assumes "\<forall>(key, e) \<in> set (entries c). \<not> expires_at e < t_clean"
    and "distinct (map fst (entries c))"
    and "entries c = (k0, e0) # rest"
  shows
  "(int (length (entries c)) = max_size c \<and> url \<in> fst ` set rest \<longrightarrow>
      fst (URLCache_set t_clean t_exp t_cached url cont c) = None \<and>
      map fst (entries (snd (URLCache_set t_clean t_exp t_cached url cont c))) = map fst rest \<and>
      int (length (entries (snd (URLCache_set t_clean t_exp t_cached url cont c)))) = max_size c - 1 \<and>
      k0 \<notin> fst ` set (entries (snd (URLCache_set t_clean t_exp t_cached url cont c))) \<and>
      map_of (entries (snd (URLCache_set t_clean t_exp t_cached url cont c))) url
        = Some \<lparr>content = cont, expires_at = t_exp + ttl c, cached_at = t_cached\<rparr>) \<and>
   (int (length (entries c)) = max_size c \<and> url = k0 \<longrightarrow>
      entries (snd (URLCache_set t_clean t_exp t_cached url cont c))
        = rest @ [(url, \<lparr>content = cont, expires_at = t_exp + ttl c, cached_at = t_cached\<rparr>)] \<and>
      int (length (entries (snd (URLCache_set t_clean t_exp t_cached url cont c)))) = max_size c) \<and>
   (int (length (entries c)) < max_size c \<and> url \<in> fst ` set (entries c) \<longrightarrow>
      map fst (entries (snd (URLCache_set t_clean t_exp t_cached url cont c))) = map fst (entries c))"
proof -
  let ?new = "\<lparr>content = cont, expires_at = t_exp + ttl c, cached_at = t_cached\<rparr>"
  let ?r = "URLCache_set t_clean t_exp t_cached url cont c"
  have pure: "URLCache_clean_expired t_clean c = c"
    by (rule clean_expired_fresh [OF assms(1)])
  have k0: "k0 \<notin> fst ` set rest" using assms(2,3) by (auto simp: image_iff)
  have full: "int (length (entries c)) = max_size c \<Longrightarrow> ?r = (None, c\<lparr>entries := AList.update url ?new rest\<rparr>)"
    using assms(3) by (simp add: URLCache_set_def pure)
  have part: "int (length (entries c)) < max_size c \<Longrightarrow> ?r = (None, c\<lparr>entries := AList.update url ?new (entries c)\<rparr>)"
    by (simp add: URLCache_set_def pure)
  show ?thesis
  proof (intro conjI impI)
    assume h: "int (length (entries c)) = max_size c \<and> url \<in> fst ` set rest"
    then have r: "?r = (None, c\<lparr>entries := AList.update url ?new rest\<rparr>)" and u: "url \<in> fst ` set rest"
      using full by blast+
    show "fst ?r = None" by (simp add: r)
    show "map fst (entries (snd ?r)) = map fst rest"
      by (simp add: r update_present_keys [OF u])
    show "int (length (entries (snd ?r))) = max_size c - 1"
      using h assms(3) by (simp add: r update_present_length [OF u])
    show "k0 \<notin> fst ` set (entries (snd ?r))"
      using k0 u by (auto simp: r AList.dom_update)
    show "map_of (entries (snd ?r)) url = Some ?new"
      by (simp add: r AList.update_conv')
  next
    assume h: "int (length (entries c)) = max_size c \<and> url = k0"
    then have r: "?r = (None, c\<lparr>entries := AList.update url ?new rest\<rparr>)" and u: "url \<notin> fst ` set rest"
      using full k0 by blast+
    show "entries (snd ?r) = rest @ [(url, ?new)]"
      by (simp add: r update_new_key [OF u])
    then show "int (length (entries (snd ?r))) = max_size c"
      using h assms(3) by simp
  next
    assume h: "int (length (entries c)) < max_size c \<and> url \<in> fst ` set (entries c)"
    then have r: "?r = (None, c\<lparr>entries := AList.update url ?new (entries c)\<rparr>)"
      and u: "url \<in> fst ` set (entries c)"
      using part by blast+
    show "map fst (entries (snd ?r)) = map fst (entries c)"
      by (simp add: r update_present_keys [OF u])
  qed
qed

theorem overwrite_existing_key_witness:
  "list_all (\<lambda>(key, e). \<not> expires_at e < 5) (entries full_cache) \<and>
   distinct (map fst (entries full_cache)) \<and>
   int (length (entries full_cache)) = max_size full_cache \<and>
   map fst (entries (snd (URLCache_set 5 6 6 ''c'' ''new'' full_cache))) = [''b'', ''c''] \<and>
   int (length (entries (snd (URLCache_set 5 6 6 ''c'' ''new'' full_cache)))) = 2 \<and>
   map fst (entries (snd (URLCache_set 5 6 6 ''b'' ''new'' full_cache))) = [''b'', ''c''] \<and>
   map_of (entries (snd (URLCache_set 5 6 6 ''b'' ''new'' full_cache))) ''b''
     = Some \<lparr>content = ''new'', expires_at = 16, cached_at = 6\<rparr> \<and>
   map fst (entries (snd (URLCache_set 5 6 6 ''a'' ''new'' full_cache))) = [''b'', ''c'', ''a''] \<and>
   map fst (entries (snd (URLCache_set 5 6 6 ''b'' ''new'' (full_cache\<lparr>max_size := 4\<rparr>))))
     = [''a'', ''b'', ''c'']"
proof -
  let ?a = "\<lparr>content = ''x'', expires_at = 10, cached_at = 0\<rparr>"
  let ?rest = "[(''b'', \<lparr>content = ''y'', expires_at = 11, cached_at = 1\<rparr>),
                (''c'', \<lparr>content = ''z'', expires_at = 12, cached_at = 2\<rparr>)]"
  have f: "\<forall>(key, e) \<in> set (entries full_cache). \<not> expires_at e < 5"
    and d: "distinct (map fst (entries full_cache))"
    and s: "entries full_cache = (''a'', ?a) # ?rest"
    by (simp_all add: full_cache_def)
  have f4: "\<forall>(key, e) \<in> set (entries (full_cache\<lparr>max_size := 4\<rparr>)). \<not> expires_at e < 5"
    and d4: "distinct (map fst (entries (full_cache\<lparr>max_size := 4\<rparr>)))"
    and s4: "entries (full_cache\<lparr>max_size := 4\<rparr>) = (''a'', ?a) # ?rest"
    by (simp_all add: full_cache_def)
  show ?thesis
    using overwrite_existing_key [OF f d s, of "''c''" 6 6 "''new''"]
      overwrite_existing_key [OF f d s, of "''b''" 6 6 "''new''"]
      overwrite_existing_key [OF f d s, of "''a''" 6 6 "''new''"]
      overwrite_existing_key [OF f4 d4 s4, of "''b''" 6 6 "''new''"]
    by (simp add: full_cache_def)
qed

section \<open>Properties of the URL fetcher\<close>

lemma set_ok: "1 \<le> max_size c \<Longrightarrow> fst (URLCache_set t_clean t_exp t_cached url cont c) = None"
  by (auto simp: URLCache_set_def Let_def clean_expired_simps split: list.splits)

lemma lookup_requests [simp]: "requests (snd (cache_lookup t url dm)) = requests dm"
  by (simp add: cache_lookup_def split: option.splits)

lemma lookup_cache:
  "dm_cache (snd (cache_lookup t url dm)) =
     (case dm_cache dm of None \<Rightarrow> None | Some c \<Rightarrow> Some (snd (URLCache_get t url c)))"
  by (simp add: cache_lookup_def split: option.splits)

lemma lookup_result:
  "fst (cache_lookup t url dm) =
     (case dm_cache dm of None \<Rightarrow> None | Some c \<Rightarrow> fst (URLCache_get t url c))"
  by (simp add: cache_lookup_def split: option.splits)

lemma fetch_failed:
  assumes "\<not> is_Page outcome" and "\<not> cache_hit t_get url dm"
  shows "fetch_url_content outcome t_get t_clean t_exp t_cached url max_length dm
           = (fst (fetch_url_content outcome t_get t_clean t_exp t_cached url max_length dm),
              (snd (cache_lookup t_get url dm))\<lparr>requests := requests dm @ [url]\<rparr>)"
  using assms
  by (cases outcome)
     (auto simp: fetch_url_content_def cache_hit_def Let_def split_beta split: option.splits)

lemma fetch_miss_requests:
  assumes "\<not> cache_hit t_get url dm"
  shows "requests (snd (fetch_url_content outcome t_get t_clean t_exp t_cached url max_length dm))
           = requests dm @ [url]"
  using assms
  by (cases outcome)
     (auto simp: fetch_url_content_def cache_hit_def Let_def split_beta split: option.splits prod.splits)

lemma get_entries_subset: "set (entries (snd (URLCache_get t url c))) \<subseteq> set (entries c)"
proof (cases "map_of (entries c) url")
  case None
  then show ?thesis by (simp add: URLCache_get_def)
next
  case (Some e)
  then have "(url, e) \<in> set (entries c)" by (rule map_of_SomeD)
  moreover have "set (AList.delete url (entries c)) \<subseteq> set (entries c)"
    by (auto simp: AList.delete_eq)
  ultimately show ?thesis using Some by (auto simp: URLCache_get_def move_to_end_def)
qed

lemma get_absent_unchanged:
  "url \<notin> fst ` set (entries c) \<Longrightarrow> URLCache_get t url c = (None, c)"
  using map_of_eq_None_iff [of "entries c" url] by (simp add: URLCache_get_def)

text \<open>After a lookup that was not a hit, the next lookup of the same key is not a hit.\<close>

lemma get_no_hit_again:
  assumes "fst (URLCache_get t url c) = None \<or> fst (URLCache_get t url c) = Some []"
  shows "fst (URLCache_get t' url (snd (URLCache_get t url c))) = None
       \<or> fst (URLCache_get t' url (snd (URLCache_get t url c))) = Some []"
proof (cases "map_of (entries c) url")
  case None
  then show ?thesis by (simp add: URLCache_get_def)
next
  case (Some e)
  show ?thesis
  proof (cases "t > expires_at e")
    case True
    then show ?thesis using Some
      by (simp add: URLCache_get_def AList.delete_conv')
  next
    case False
    with Some assms have empty: "content e = []" by (simp add: URLCache_get_def)
    have "map_of (AList.delete url (entries c) @ [(url, e)]) url = Some e"
      by (simp add: map_add_def AList.delete_conv')
    then show ?thesis using Some False empty
      by (simp add: URLCache_get_def move_to_end_def)
  qed
qed

lemma no_hit_again:
  assumes "\<not> cache_hit t url dm"
  shows "\<not> cache_hit t' url ((snd (cache_lookup t url dm))\<lparr>requests := rs\<rparr>)"
proof (cases "dm_cache dm")
  case None
  then show ?thesis by (simp add: cache_hit_def cache_lookup_def)
next
  case (Some c)
  with assms have "fst (URLCache_get t url c) = None \<or> fst (URLCache_get t url c) = Some []"
    by (auto simp: cache_hit_def cache_lookup_def split: option.splits)
  from get_no_hit_again [OF this, of t'] Some show ?thesis
    by (auto simp: cache_hit_def cache_lookup_def split: option.splits)
qed


text \<open>
  C9 (as stated): a failing fetch leaves the URL cache completely unchanged. The failure
  branches do not touch the cache, but the lookup that precedes the retrieval does: here
  the cache holds an expired entry for the URL, \<^verbatim>\<open>cache.get\<close> deletes it, the
  retrieval fails with status 500, and the cache is empty afterwards.
\<close>

theorem failed_fetch_changes_cache_counterexample:
  "fst (fetch_url_content (HTTPStatusError ''500'') 10 10 10 10 ''a'' 50 stale_manager)
     = ''Erro ao buscar URL: 500'' \<and>
   dm_cache stale_manager = Some stale_cache \<and>
   map fst (entries stale_cache) = [''a''] \<and>
   dm_cache (snd (fetch_url_content (HTTPStatusError ''500'') 10 10 10 10 ''a'' 50 stale_manager))
     = Some (stale_cache\<lparr>entries := []\<rparr>)"
  by (simp add: fetch_url_content_def cache_lookup_def stale_manager_def stale_cache_def
        URLCache_get_def)

text \<open>
  C9 (amended): when \<^verbatim>\<open>fetch_url_content\<close> goes to the network and the retrieval or
  the processing of the response fails, the failure handling writes nothing to the
  cache: the manager is left as the initial cache lookup left it, with the request
  recorded. So the cache is unchanged when it is disabled or holds no entry for the URL;
  otherwise the lookup may have removed the URL's expired entry or moved its entry (with
  empty content) to the most recently used end. No entry is added or altered, so the
  diagnostic string is never stored, and the next fetch of the same URL goes to the
  network again.
\<close>

theorem failed_fetch_leaves_lookup_state:
  assumes "\<not> is_Page outcome" and "\<not> cache_hit t_get url dm"
  shows
  "snd (fetch_url_content outcome t_get t_clean t_exp t_cached url max_length dm)
     = (snd (cache_lookup t_get url dm))\<lparr>requests := requests dm @ [url]\<rparr> \<and>
   dm_cache (snd (fetch_url_content outcome t_get t_clean t_exp t_cached url max_length dm))
     = (case dm_cache dm of None \<Rightarrow> None | Some c \<Rightarrow> Some (snd (URLCache_get t_get url c))) \<and>
   (dm_cache dm = None \<or> (\<exists>c. dm_cache dm = Some c \<and> url \<notin> fst ` set (entries c))
      \<longrightarrow> dm_cache (snd (fetch_url_content outcome t_get t_clean t_exp t_cached url max_length dm))
            = dm_cache dm) \<and>
   (\<forall>c c'. dm_cache dm = Some c \<and>
        dm_cache (snd (fetch_url_content outcome t_get t_clean t_exp t_cached url max_length dm)) = Some c'
      \<longrightarrow> set (entries c') \<subseteq> set (entries c) \<and> ttl c' = ttl c \<and> max_size c' = max_size c) \<and>
   requests (snd (fetch_url_content outcome2 t_get2 t_clean2 t_exp2 t_cached2 url max_length2
               (snd (fetch_url_content outcome t_get t_clean t_exp t_cached url max_length dm))))
     = requests dm @ [url, url]"
proof -
  let ?dm' = "snd (fetch_url_content outcome t_get t_clean t_exp t_cached url max_length dm)"
  have dm': "?dm' = (snd (cache_lookup t_get url dm))\<lparr>requests := requests dm @ [url]\<rparr>"
    using fetch_failed [OF assms, of t_clean t_exp t_cached max_length]
    by (metis snd_conv)
  have cache: "dm_cache ?dm' =
      (case dm_cache dm of None \<Rightarrow> None | Some c \<Rightarrow> Some (snd (URLCache_get t_get url c)))"
    by (simp add: dm' lookup_cache)
  have same: "dm_cache dm = None \<or> (\<exists>c. dm_cache dm = Some c \<and> url \<notin> fst ` set (entries c))
      \<longrightarrow> dm_cache ?dm' = dm_cache dm"
    by (auto simp: cache get_absent_unchanged)
  have sub: "\<forall>c c'. dm_cache dm = Some c \<and> dm_cache ?dm' = Some c'
      \<longrightarrow> set (entries c') \<subseteq> set (entries c) \<and> ttl c' = ttl c \<and> max_size c' = max_size c"
    by (auto simp: cache get_fields dest!: subsetD [OF get_entries_subset])
  have "\<not> cache_hit t_get2 url ?dm'"
    unfolding dm' by (rule no_hit_again [OF assms(2)])
  from fetch_miss_requests [OF this]
  have again: "requests (snd (fetch_url_content outcome2 t_get2 t_clean2 t_exp2 t_cached2 url max_length2 ?dm'))
      = requests dm @ [url, url]"
    by (simp add: dm')
  from dm' cache same sub again show ?thesis by blast
qed

theorem failed_fetch_leaves_lookup_state_witness:
  "\<not> is_Page (RequestError ''timeout'') \<and>
   \<not> cache_hit 3 ''http://x.org'' \<lparr>dm_cache = Some fresh_cache, requests = []\<rparr> \<and>
   dm_cache (snd (fetch_url_content (RequestError ''timeout'') 3 3 3 3 ''http://x.org'' 50
                    \<lparr>dm_cache = Some fresh_cache, requests = []\<rparr>)) = Some fresh_cache \<and>
   requests (snd (fetch_url_content (Page ''text'') 4 4 4 4 ''http://x.org'' 50
               (snd (fetch_url_content (RequestError ''timeout'') 3 3 3 3 ''http://x.org'' 50
                    \<lparr>dm_cache = Some fresh_cache, requests = []\<rparr>))))
     = [''http://x.org'', ''http://x.org'']"
proof -
  let ?u = "''http://x.org''"
  let ?dm = "\<lparr>dm_cache = Some fresh_cache, requests = []\<rparr>"
  let ?dm' = "snd (fetch_url_content (RequestError ''timeout'') 3 3 3 3 ?u 50 ?dm)"
  have a: "\<not> is_Page (RequestError ''timeout'')" by simp
  have b: "\<not> cache_hit 3 ?u ?dm"
    by (simp add: cache_hit_def cache_lookup_def fresh_cache_def URLCache_get_def)
  have c: "\<exists>c. dm_cache ?dm = Some c \<and> ?u \<notin> fst ` set (entries c)"
    by (simp add: fresh_cache_def)
  note th = failed_fetch_leaves_lookup_state [OF a b, of 3 3 3 50 "Page ''text''" 4 4 4 4 50]
  from th have "dm_cache ?dm = None \<or> (\<exists>c. dm_cache ?dm = Some c \<and> ?u \<notin> fst ` set (entries c))
      \<longrightarrow> dm_cache ?dm' = dm_cache ?dm"
    by (elim conjE)
  with c have same: "dm_cache ?dm' = Some fresh_cache" by simp
  from th have "requests (snd (fetch_url_content (Page ''text'') 4 4 4 4 ?u 50 ?dm'))
      = requests ?dm @ [?u, ?u]"
    by (elim conjE)
  then have again: "requests (snd (fetch_url_content (Page ''text'') 4 4 4 4 ?u 50 ?dm')) = [?u, ?u]"
    by simp
  from a b same again show ?thesis by (intro conjI)
qed

text \<open>
  C1: the truncation of a long page and the cached second fetch, evaluated on a page of
  200 characters with \<open>max_length = 50\<close> and an empty, enabled cache. The first call
  returns the first 50 characters followed by the marker, 64 characters in all; the
  second call is served from the cache without a request, and returns the first 50
  characters of the cached string, which has lost the marker.
\<close>

theorem fetch_truncation_on_200_chars:
  "fst (fetch_url_content (Page page200) 0 0 0 0 ''http://x.org'' 50 empty_manager)
     = replicate 50 CHR ''a'' @ ''... [truncado]'' \<and>
   length (fst (fetch_url_content (Page page200) 0 0 0 0 ''http://x.org'' 50 empty_manager)) = 64 \<and>
   fst (fetch_url_content (Page page200) 1 1 1 1 ''http://x.org'' 50
          (snd (fetch_url_content (Page page200) 0 0 0 0 ''http://x.org'' 50 empty_manager)))
     = replicate 50 CHR ''a'' \<and>
   requests (snd (fetch_url_content (Page page200) 1 1 1 1 ''http://x.org'' 50
          (snd (fetch_url_content (Page page200) 0 0 0 0 ''http://x.org'' 50 empty_manager))))
     = [''http://x.org'']"
proof -
  let ?u = "''http://x.org''"
  let ?first = "fetch_url_content (Page page200) 0 0 0 0 ?u 50 empty_manager"
  let ?e = "\<lparr>content = replicate 50 CHR ''a'' @ ''... [truncado]'', expires_at = 3600000000, cached_at = 0\<rparr>"
  have t: "take 50 page200 = replicate 50 CHR ''a''"
    by (simp add: page200_def)
  have first: "?first = (replicate 50 CHR ''a'' @ ''... [truncado]'',
      \<lparr>dm_cache = Some \<lparr>ttl = 3600000000, max_size = 1000, entries = [(?u, ?e)]\<rparr>,
       requests = [?u]\<rparr>)"
    by (simp add: fetch_url_content_def cache_lookup_def empty_manager_def URLCache_init_def
          URLCache_get_def URLCache_set_def URLCache_clean_expired_def slice_to_def
          truncation_marker_def t Let_def)
       (simp add: page200_def)
  let ?dm1 = "\<lparr>dm_cache = Some \<lparr>ttl = 3600000000, max_size = 1000, entries = [(?u, ?e)]\<rparr>,
       requests = [?u]\<rparr>"
  have second: "fetch_url_content (Page page200) 1 1 1 1 ?u 50 ?dm1 = (replicate 50 CHR ''a'', ?dm1)"
    by (simp add: fetch_url_content_def cache_lookup_def URLCache_get_def move_to_end_def
          slice_to_def)
  show ?thesis by (simp add: first second)
qed

text \<open>
  The same in general: a page longer than \<open>max_length\<close> comes back as its first
  \<open>max_length\<close> characters followed by the 14 characters of the marker, and a later
  fetch served from that cache entry returns the first \<open>max_length\<close> characters only.
\<close>

lemma fetch_long_page_first:
  assumes "dm_cache dm = Some c" and "url \<notin> fst ` set (entries c)" and "1 \<le> max_size c"
    and "0 \<le> max_length" and "int (length cleaned) > max_length"
  shows "fst (fetch_url_content (Page cleaned) t_get t_clean t_exp t_cached url max_length dm)
           = take (nat max_length) cleaned @ truncation_marker"
    and "length (fst (fetch_url_content (Page cleaned) t_get t_clean t_exp t_cached url max_length dm))
           = nat max_length + 14"
proof -
  let ?t = "take (nat max_length) cleaned @ truncation_marker"
  have look: "cache_lookup t_get url dm = (None, dm)"
    using assms(1) get_absent_unchanged [OF assms(2), of t_get]
    by (simp add: cache_lookup_def)
  have ok: "fst (URLCache_set t_clean t_exp t_cached url ?t c) = None"
    by (rule set_ok [OF assms(3)])
  show 1: "fst (fetch_url_content (Page cleaned) t_get t_clean t_exp t_cached url max_length dm) = ?t"
    using assms(1,4,5) ok
    by (auto simp: fetch_url_content_def look slice_to_def Let_def split: prod.splits option.splits)
  show "length (fst (fetch_url_content (Page cleaned) t_get t_clean t_exp t_cached url max_length dm))
           = nat max_length + 14"
    using assms(4,5) unfolding 1 by (simp add: truncation_marker_def)
qed

lemma fetch_long_page_cached:
  assumes "dm_cache dm = Some c" and "map_of (entries c) url = Some e" and "\<not> t_get > expires_at e"
    and "content e = take (nat max_length) cleaned @ truncation_marker"
    and "0 \<le> max_length" and "int (length cleaned) > max_length"
  shows "fst (fetch_url_content outcome t_get t_clean t_exp t_cached url max_length dm)
           = take (nat max_length) cleaned"
    and "requests (snd (fetch_url_content outcome t_get t_clean t_exp t_cached url max_length dm))
           = requests dm"
proof -
  have look: "cache_lookup t_get url dm =
      (Some (content e), dm\<lparr>dm_cache := Some (c\<lparr>entries := AList.delete url (entries c) @ [(url, e)]\<rparr>)\<rparr>)"
    using assms(1) get_hit [OF assms(2,3)] by (simp add: cache_lookup_def)
  have ne: "content e \<noteq> []" by (simp add: assms(4) truncation_marker_def)
  have long: "int (length (content e)) > max_length"
    using assms(5,6) by (simp add: assms(4) truncation_marker_def)
  have cut: "slice_to max_length (content e) = take (nat max_length) cleaned"
    using assms(5,6) by (simp add: slice_to_def assms(4))
  show "fst (fetch_url_content outcome t_get t_clean t_exp t_cached url max_length dm)
           = take (nat max_length) cleaned"
    using ne long cut by (simp add: fetch_url_content_def look Let_def)
  show "requests (snd (fetch_url_content outcome t_get t_clean t_exp t_cached url max_length dm))
           = requests dm"
    using ne by (simp add: fetch_url_content_def look Let_def)
qed

section \<open>Properties of the URL validator\<close>

text \<open>
  C6: \<^verbatim>\<open>validate_url\<close> is a function from any value to a boolean (the model has no
  error outcome, because the source returns \<^verbatim>\<open>False\<close> before touching a value that is
  not a non-empty string, and matching a string cannot raise). It accepts the three
  URLs of the spec and rejects the three non-URLs, the empty string among them, and
  every value that is not a string.
\<close>

theorem validate_url_examples:
  "validate_url (JStr ''https://example.com'') \<and>
   validate_url (JStr ''http://localhost:8080/path'') \<and>
   validate_url (JStr ''https://192.168.1.1'') \<and>
   \<not> validate_url (JStr ''ftp://x.com'') \<and>
   \<not> validate_url (JStr ''not a url'') \<and>
   \<not> validate_url (JStr '''') \<and>
   \<not> validate_url JNull \<and>
   \<not> validate_url (JBool b) \<and>
   \<not> validate_url (JNum n) \<and>
   \<not> validate_url (JArr xs) \<and>
   \<not> validate_url (JObj kvs)"
proof -
  have 1: "validate_url (JStr ''https://example.com'')" by code_simp
  have 2: "validate_url (JStr ''http://localhost:8080/path'')" by code_simp
  have 3: "validate_url (JStr ''https://192.168.1.1'')" by code_simp
  have 4: "\<not> validate_url (JStr ''ftp://x.com'')" by code_simp
  have 5: "\<not> validate_url (JStr ''not a url'')" by code_simp
  have 6: "\<not> validate_url (JStr '''')" by (simp add: validate_url_def)
  have 7: "\<not> validate_url JNull" "\<not> validate_url (JBool b)" "\<not> validate_url (JNum n)"
    "\<not> validate_url (JArr xs)" "\<not> validate_url (JObj kvs)"
    by (simp_all add: validate_url_def)
  from 1 2 3 4 5 6 7 show ?thesis by (intro conjI)
qed

theorem validate_url_examples_witness:
  "validate_url (JStr ''https://example.com'') \<and>
   \<not> validate_url (JStr '''') \<and>
   \<not> validate_url (JBool True) \<and>
   \<not> validate_url (JNum 8080) \<and>
   \<not> validate_url (JArr [JStr ''https://example.com'']) \<and>
   \<not> validate_url (JObj [(''url'', JStr ''https://example.com'')])"
  using validate_url_examples [of True 8080 "[JStr ''https://example.com'']"
      "[(''url'', JStr ''https://example.com'')]"]
  by (elim conjE, intro conjI)

section \<open>Properties of the tutorial index loader\<close>

lemma validate_url_empty: "\<not> validate_url (JStr [])"
  by (simp add: validate_url_def)

lemma validate_entries_filter:
  "validate_entries mk xs valid = valid @ map (mk \<circ> dict_of) (filter entry_survives xs)"
proof (induction mk xs valid rule: validate_entries.induct)
  case (1 mk valid)
  then show ?case by simp
next
  case (2 mk item rest valid)
  then show ?case
    by (cases "map_of item ''url''") (simp_all add: dict_get_def)
qed simp_all

lemma map_of_ensure_key:
  "map_of (ensure_key key d) k = (if k = key \<and> map_of d k = None then Some (JArr []) else map_of d k)"
  by (auto simp: ensure_key_def AList.update_conv')

lemma map_of_ensure_is_list:
  "map_of (ensure_is_list key d) k =
     (if k = key \<and> \<not> is_JArr (dict_get d key JNull) then Some (JArr []) else map_of d k)"
  by (auto simp: ensure_is_list_def AList.update_conv')

lemma elements_not_list: "\<not> is_JArr v \<Longrightarrow> elements v = []"
  by (cases v) simp_all

lemma listed_after_ensure:
  assumes "map_of d' key = (if map_of d key = None \<or> \<not> is_JArr (dict_get d key JNull)
                            then Some (JArr []) else map_of d key)"
  shows "elements (dict_get d' key JNull) = listed d key"
  using assms
  by (cases "map_of d key") (auto simp: dict_get_def listed_def elements_not_list)


lemma ensured_tutoriais: "elements (dict_get (ensured d) ''tutoriais'' JNull) = listed d ''tutoriais''"
  by (cases "map_of d ''tutoriais''")
     (auto simp: ensured_def dict_get_def listed_def map_of_ensure_key map_of_ensure_is_list
        elements_not_list)

lemma ensured_urls: "elements (dict_get (ensured d) ''urls'' JNull) = listed d ''urls''"
  by (cases "map_of d ''urls''")
     (auto simp: ensured_def dict_get_def listed_def map_of_ensure_key map_of_ensure_is_list
        elements_not_list)

lemma ensured_other:
  "k \<noteq> ''tutoriais'' \<Longrightarrow> k \<noteq> ''urls'' \<Longrightarrow> map_of (ensured d) k = map_of d k"
  by (simp add: ensured_def map_of_ensure_key map_of_ensure_is_list)

lemma load_parsed:
  assumes "\<not> fs_stat_error fs p" and "fs_exists fs p" and "fs_load_json fs p = Some (JObj d)"
  shows "load_urls_from_json fs p =
           Inr (AList.update ''urls''
             (JArr (map (url_valid \<circ> dict_of) (filter entry_survives (listed d ''urls''))))
             (AList.update ''tutoriais''
                (JArr (map (tutorial_valid \<circ> dict_of) (filter entry_survives (listed d ''tutoriais''))))
                (ensured d)))"
proof -
  let ?d4 = "ensured d"
  let ?vt = "validate_entries tutorial_valid (elements (dict_get ?d4 ''tutoriais'' JNull)) []"
  let ?d5 = "AList.update ''tutoriais'' (JArr ?vt) ?d4"
  have "dict_get ?d5 ''urls'' JNull = dict_get ?d4 ''urls'' JNull"
    by (simp add: dict_get_def AList.update_conv')
  then have u: "elements (dict_get ?d5 ''urls'' JNull) = listed d ''urls''"
    by (simp add: ensured_urls)
  show ?thesis
    using assms u
    by (simp add: load_urls_from_json_def Let_def validate_entries_filter ensured_tutoriais
          flip: ensured_def)
qed

lemma load_unreadable_status: "fs_stat_error fs p \<Longrightarrow> load_urls_from_json fs p = Inl OSError"
  by (simp add: load_urls_from_json_def)

lemma load_missing:
  "\<not> fs_stat_error fs p \<Longrightarrow> \<not> fs_exists fs p \<Longrightarrow> load_urls_from_json fs p = Inr default_structure"
  by (simp add: load_urls_from_json_def)

lemma load_malformed:
  "\<not> fs_stat_error fs p \<Longrightarrow> fs_load_json fs p = None
     \<Longrightarrow> load_urls_from_json fs p = Inr default_structure"
  by (simp add: load_urls_from_json_def)

lemma load_not_record:
  "\<not> fs_stat_error fs p \<Longrightarrow> fs_load_json fs p = Some v \<Longrightarrow> \<not> is_JObj v
     \<Longrightarrow> load_urls_from_json fs p = Inr default_structure"
  by (cases v) (simp_all add: load_urls_from_json_def)

lemma load_never_other_error: "load_urls_from_json fs p \<noteq> Inl AttributeError"
  "load_urls_from_json fs p \<noteq> Inl TypeError"
  by (auto simp: load_urls_from_json_def Let_def split: option.splits json.splits)

lemma not_record_dropped: "\<not> is_JObj e \<Longrightarrow> \<not> entry_survives e"
  by (cases e) simp_all

lemma bad_url_dropped:
  "\<not> validate_url (dict_get item ''url'' (JStr '''')) \<Longrightarrow> \<not> entry_survives (JObj item)"
  by (cases "map_of item ''url''") (simp_all add: dict_get_def)

lemma script_url_invalid: "\<not> validate_url (JStr ''javascript:alert(1)'')"
  by code_simp

text \<open>
  What the two rebuilt dicts hold, field by field: every value the entry gives is kept
  as it is, an absent \<open>titulo\<close> becomes the placeholder, an absent \<open>url\<close>,
  \<open>categoria\<close> or \<open>descricao\<close> the empty string, and \<open>topicos\<close> is kept only when it
  is a list.
\<close>

lemma tutorial_valid_fields:
  "tutorial_valid item =
     JObj [(''titulo'', case map_of item ''titulo'' of None \<Rightarrow> JStr sem_titulo | Some v \<Rightarrow> v),
           (''url'', case map_of item ''url'' of None \<Rightarrow> JStr '''' | Some v \<Rightarrow> v),
           (''categoria'', case map_of item ''categoria'' of None \<Rightarrow> JStr '''' | Some v \<Rightarrow> v),
           (''topicos'', case map_of item ''topicos'' of
                            Some (JArr ts) \<Rightarrow> JArr ts | Some other \<Rightarrow> JArr [] | None \<Rightarrow> JArr [])]"
  by (simp add: tutorial_valid_def dict_get_def list_or_empty_def split: option.splits json.splits)

lemma url_valid_fields:
  "url_valid item =
     JObj [(''url'', case map_of item ''url'' of None \<Rightarrow> JStr '''' | Some v \<Rightarrow> v),
           (''descricao'', case map_of item ''descricao'' of None \<Rightarrow> JStr '''' | Some v \<Rightarrow> v),
           (''categoria'', case map_of item ''categoria'' of None \<Rightarrow> JStr '''' | Some v \<Rightarrow> v),
           (''topicos'', case map_of item ''topicos'' of
                            Some (JArr ts) \<Rightarrow> JArr ts | Some other \<Rightarrow> JArr [] | None \<Rightarrow> JArr [])]"
  by (simp add: url_valid_def dict_get_def list_or_empty_def split: option.splits json.splits)

text \<open>
  Loading a descriptor whose status can be read. A file reported missing, a file that
  cannot be read or parsed, and a file whose top-level value is not a record all give
  exactly \<open>{tutoriais: [], urls: []}\<close>. For a file holding a record, the lists returned
  under \<open>tutoriais\<close> and \<open>urls\<close> are the entries of the file's lists that survive
  (records whose \<open>url\<close> passes the validator), in their order, each rebuilt in the full
  shape with its own values and the defaults; entries that are not records or whose
  \<open>url\<close> is missing or fails the validator (\<open>javascript:alert(1)\<close> does) do not
  survive.
\<close>

lemma load_urls_from_json_filters:
  assumes "\<not> fs_stat_error fs p"
  shows
  "(\<not> fs_exists fs p \<longrightarrow>
      load_urls_from_json fs p = Inr [(''tutoriais'', JArr []), (''urls'', JArr [])]) \<and>
   (fs_load_json fs p = None \<longrightarrow>
      load_urls_from_json fs p = Inr [(''tutoriais'', JArr []), (''urls'', JArr [])]) \<and>
   (fs_load_json fs p = Some v \<and> \<not> is_JObj v \<longrightarrow>
      load_urls_from_json fs p = Inr [(''tutoriais'', JArr []), (''urls'', JArr [])]) \<and>
   (fs_exists fs p \<and> fs_load_json fs p = Some (JObj d) \<longrightarrow>
      (\<exists>data. load_urls_from_json fs p = Inr data \<and>
         map_of data ''tutoriais''
           = Some (JArr (map (tutorial_valid \<circ> dict_of) (filter entry_survives (listed d ''tutoriais'')))) \<and>
         map_of data ''urls''
           = Some (JArr (map (url_valid \<circ> dict_of) (filter entry_survives (listed d ''urls'')))))) \<and>
   (\<not> is_JObj e \<longrightarrow> \<not> entry_survives e) \<and>
   (\<not> validate_url (dict_get item ''url'' (JStr '''')) \<longrightarrow> \<not> entry_survives (JObj item)) \<and>
   \<not> validate_url (JStr ''javascript:alert(1)'') \<and>
   tutorial_valid item =
     JObj [(''titulo'', case map_of item ''titulo'' of None \<Rightarrow> JStr sem_titulo | Some v \<Rightarrow> v),
           (''url'', case map_of item ''url'' of None \<Rightarrow> JStr '''' | Some v \<Rightarrow> v),
           (''categoria'', case map_of item ''categoria'' of None \<Rightarrow> JStr '''' | Some v \<Rightarrow> v),
           (''topicos'', case map_of item ''topicos'' of
                            Some (JArr ts) \<Rightarrow> JArr ts | Some other \<Rightarrow> JArr [] | None \<Rightarrow> JArr [])] \<and>
   url_valid item =
     JObj [(''url'', case map_of item ''url'' of None \<Rightarrow> JStr '''' | Some v \<Rightarrow> v),
           (''descricao'', case map_of item ''descricao'' of None \<Rightarrow> JStr '''' | Some v \<Rightarrow> v),
           (''categoria'', case map_of item ''categoria'' of None \<Rightarrow> JStr '''' | Some v \<Rightarrow> v),
           (''topicos'', case map_of item ''topicos'' of
                            Some (JArr ts) \<Rightarrow> JArr ts | Some other \<Rightarrow> JArr [] | None \<Rightarrow> JArr [])]"
proof (intro conjI impI)
  show "load_urls_from_json fs p = Inr [(''tutoriais'', JArr []), (''urls'', JArr [])]"
    if "\<not> fs_exists fs p"
    using load_missing [OF assms that] by (simp add: default_structure_def)
  show "load_urls_from_json fs p = Inr [(''tutoriais'', JArr []), (''urls'', JArr [])]"
    if "fs_load_json fs p = None"
    using load_malformed [OF assms that] by (simp add: default_structure_def)
  show "load_urls_from_json fs p = Inr [(''tutoriais'', JArr []), (''urls'', JArr [])]"
    if "fs_load_json fs p = Some v \<and> \<not> is_JObj v"
    using load_not_record [OF assms, of v] that by (simp add: default_structure_def)
next
  assume h: "fs_exists fs p \<and> fs_load_json fs p = Some (JObj d)"
  then have eq: "load_urls_from_json fs p =
           Inr (AList.update ''urls''
             (JArr (map (url_valid \<circ> dict_of) (filter entry_survives (listed d ''urls''))))
             (AList.update ''tutoriais''
                (JArr (map (tutorial_valid \<circ> dict_of) (filter entry_survives (listed d ''tutoriais''))))
                (ensured d)))"
    by (intro load_parsed [OF assms]) blast+
  show "\<exists>data. load_urls_from_json fs p = Inr data \<and>
         map_of data ''tutoriais''
           = Some (JArr (map (tutorial_valid \<circ> dict_of) (filter entry_survives (listed d ''tutoriais'')))) \<and>
         map_of data ''urls''
           = Some (JArr (map (url_valid \<circ> dict_of) (filter entry_survives (listed d ''urls''))))"
    by (simp add: eq AList.update_conv')
next
  show "\<not> entry_survives e" if "\<not> is_JObj e" by (rule not_record_dropped [OF that])
  show "\<not> entry_survives (JObj item)" if "\<not> validate_url (dict_get item ''url'' (JStr ''''))"
    by (rule bad_url_dropped [OF that])
  show "\<not> validate_url (JStr ''javascript:alert(1)'')" by (rule script_url_invalid)
  show "tutorial_valid item =
     JObj [(''titulo'', case map_of item ''titulo'' of None \<Rightarrow> JStr sem_titulo | Some v \<Rightarrow> v),
           (''url'', case map_of item ''url'' of None \<Rightarrow> JStr '''' | Some v \<Rightarrow> v),
           (''categoria'', case map_of item ''categoria'' of None \<Rightarrow> JStr '''' | Some v \<Rightarrow> v),
           (''topicos'', case map_of item ''topicos'' of
                            Some (JArr ts) \<Rightarrow> JArr ts | Some other \<Rightarrow> JArr [] | None \<Rightarrow> JArr [])]"
    by (rule tutorial_valid_fields)
  show "url_valid item =
     JObj [(''url'', case map_of item ''url'' of None \<Rightarrow> JStr '''' | Some v \<Rightarrow> v),
           (''descricao'', case map_of item ''descricao'' of None \<Rightarrow> JStr '''' | Some v \<Rightarrow> v),
           (''categoria'', case map_of item ''categoria'' of None \<Rightarrow> JStr '''' | Some v \<Rightarrow> v),
           (''topicos'', case map_of item ''topicos'' of
                            Some (JArr ts) \<Rightarrow> JArr ts | Some other \<Rightarrow> JArr [] | None \<Rightarrow> JArr [])]"
    by (rule url_valid_fields)
qed

text \<open>The example descriptor, loaded: the string and the entry with the script URL are
  gone, the third entry is rebuilt with its URL and category, the placeholder title and
  no topics.\<close>

lemma load_example_descriptor:
  "load_urls_from_json example_fs ''docs/tutoriais/maquinario/urls.json''
     = Inr [(''versao'', JNum 2),
            (''tutoriais'',
               JArr [JObj [(''titulo'', JStr sem_titulo), (''url'', JStr ''https://example.com''),
                           (''categoria'', JStr ''maquinario''), (''topicos'', JArr [])]]),
            (''urls'', JArr [])] \<and>
   load_urls_from_json example_fs ''docs/tutoriais/fundo_rural/urls.json''
     = Inr [(''tutoriais'', JArr []), (''urls'', JArr [])]"
proof -
  let ?p = "''docs/tutoriais/maquinario/urls.json''"
  let ?bad = "[(''titulo'', JStr ''Bad''), (''url'', JStr ''javascript:alert(1)'')]"
  let ?good = "[(''url'', JStr ''https://example.com''), (''categoria'', JStr ''maquinario'')]"
  let ?d = "[(''versao'', JNum 2), (''tutoriais'', JArr [JStr ''junk'', JObj ?bad, JObj ?good])]"
  have ok: "validate_url (JStr ''https://example.com'')" by code_simp
  have lists: "filter entry_survives (listed ?d ''tutoriais'') = [JObj ?good]"
    "filter entry_survives (listed ?d ''urls'') = []"
    using ok script_url_invalid by (simp_all add: listed_def dict_get_def)
  have "load_urls_from_json example_fs ?p =
          Inr (AList.update ''urls''
             (JArr (map (url_valid \<circ> dict_of) (filter entry_survives (listed ?d ''urls''))))
             (AList.update ''tutoriais''
                (JArr (map (tutorial_valid \<circ> dict_of) (filter entry_survives (listed ?d ''tutoriais''))))
                (ensured ?d)))"
    by (rule load_parsed) (simp_all add: example_fs_def example_descriptor_def)
  then have 1: "load_urls_from_json example_fs ?p
     = Inr [(''versao'', JNum 2),
            (''tutoriais'',
               JArr [JObj [(''titulo'', JStr sem_titulo), (''url'', JStr ''https://example.com''),
                           (''categoria'', JStr ''maquinario''), (''topicos'', JArr [])]]),
            (''urls'', JArr [])]"
    by (simp add: lists tutorial_valid_fields ensured_def ensure_key_def ensure_is_list_def
          dict_get_def)
  have 2: "load_urls_from_json example_fs ''docs/tutoriais/fundo_rural/urls.json''
     = Inr [(''tutoriais'', JArr []), (''urls'', JArr [])]"
    by (simp add: load_urls_from_json_def example_fs_def default_structure_def)
  from 1 2 show ?thesis by simp
qed

text \<open>
  C7: a missing descriptor file is claimed to yield exactly \<open>{tutoriais: [], urls: []}\<close>
  rather than an error. The test \<^verbatim>\<open>json_path.exists()\<close> of line 66 stands before the
  \<^verbatim>\<open>try\<close>. In a file system that holds the directory \<open>docs/tutoriais\<close>, no file
  lies at the path \<open>docs/tutoriais/aaa...a/urls.json\<close> with 300 letters \<open>a\<close>, but
  \<^verbatim>\<open>exists()\<close> raises OSError for it (file name too long) and the loader raises with
  it, where its docstring promises the default structure for a file that does not exist
  (and where \<^verbatim>\<open>get_tutorials\<close> makes the same test inside its \<^verbatim>\<open>try\<close>). The other
  parts of the claim hold for every path whose status can be read: dropped entries,
  rebuilt survivors and the default structure are the subject of the lemma before.
\<close>

theorem load_urls_from_json_overlong_path:
  "overlong_path = ''docs/tutoriais/'' @ replicate 300 CHR ''a'' @ ''/urls.json'' \<and>
   fs_exists overlong_fs ''docs/tutoriais'' = True \<and>
   fs_exists overlong_fs overlong_path = False \<and>
   load_urls_from_json overlong_fs overlong_path = Inl OSError"
  by (simp add: load_urls_from_json_def overlong_fs_def overlong_path_def)

section \<open>Properties of the document repository\<close>



lemma first_holding_exists:
  "first_holding fs root file_name names = Some p \<Longrightarrow> fs_exists fs p"
  by (induction names) (auto split: if_splits)






section \<open>Properties of the documentation search\<close>










lemma lower_all_total: "list_all is_JStr xs \<Longrightarrow> \<exists>lows. lower_all xs = Inr lows"
proof (induction xs)
  case Nil
  then show ?case by simp
next
  case (Cons x xs)
  then obtain s where "x = JStr s" by (cases x) auto
  with Cons show ?case by auto
qed

lemma tutorial_pass_total:
  "list_all well_typed_tutorial ts \<Longrightarrow> \<exists>out. tutorial_pass q ts seen res = Inr out"
proof (induction ts arbitrary: seen res)
  case Nil
  then show ?case by simp
next
  case (Cons t ts)
  then have wt: "well_typed_tutorial t" and rest: "list_all well_typed_tutorial ts"
    by simp_all
  from wt obtain tutorial where t: "t = JObj tutorial" by (cases t) auto
  from wt t obtain s where s: "dict_get tutorial ''titulo'' (JStr '''') = JStr s"
    by (cases "dict_get tutorial ''titulo'' (JStr '''')") auto
  from wt t obtain xs where xs: "dict_get tutorial ''topicos'' (JArr []) = JArr xs"
    by (cases "dict_get tutorial ''topicos'' (JArr [])") auto
  from wt t xs have "list_all is_JStr xs" by simp
  then obtain lows where lows: "lower_all xs = Inr lows" using lower_all_total by blast
  from wt t have h: "hashable (dict_get tutorial ''url'' (JStr ''''))" by simp
  show ?case
    using Cons.IH [OF rest] h
    by (simp add: t s xs lows)
qed

lemma dirs_loop_returns:
  "(\<exists>out. dirs_loop r q names docs = Inr out)
     = list_all (\<lambda>name. \<not> fs_stat_error (repo_fs r) (pjoin (md_path r) name)) names"
  by (induction names arbitrary: docs) simp_all

lemma dirs_loop_error: "dirs_loop r q names docs = Inl e \<Longrightarrow> e = OSError"
  by (induction names arbitrary: docs) (simp_all split: if_splits)

text \<open>The document pass returns exactly when the directories it examines can be
  examined, and raises OSError otherwise.\<close>

lemma doc_pass_returns: "(\<exists>docs. doc_pass r q category = Inr docs) = dirs_readable r category"
  by (cases category)
     (simp_all add: doc_pass_def dirs_readable_def dirs_loop_returns split: option.splits)

lemma doc_pass_error: "doc_pass r q category = Inl e \<Longrightarrow> e = OSError"
  by (cases category)
     (auto simp: doc_pass_def dest: dirs_loop_error split: option.splits if_splits)

lemma doc_pass_unreadable: "\<not> dirs_readable r category \<Longrightarrow> doc_pass r q category = Inl OSError"
proof -
  assume "\<not> dirs_readable r category"
  then have "\<not> (\<exists>docs. doc_pass r q category = Inr docs)" by (simp add: doc_pass_returns)
  then obtain e where e: "doc_pass r q category = Inl e"
    by (cases "doc_pass r q category") auto
  with doc_pass_error [OF e] show ?thesis by simp
qed






text \<open>A search that gets through the tutorial pass and then meets a directory it cannot
  examine raises OSError.\<close>

lemma search_unreadable:
  assumes "list_all well_typed_tutorial (get_tutorials r category)"
    and "\<not> dirs_readable r category"
  shows "search_documentation r query category = Inl OSError"
proof -
  obtain res where 1: "tutorial_pass (py_lower query) (get_tutorials r category) []
          (kb_pass (py_lower query) category DOCUMENTATION_MAP) = Inr res"
    using tutorial_pass_total [OF assms(1)] by blast
  show ?thesis
    by (simp add: search_documentation_def collect_results_def 1 doc_pass_unreadable [OF assms(2)])
qed





end
